theory Spec2Isabelle
  imports Main "HOL-Library.Sublist"
begin

section \<open>JavaScript values, arrays and the store\<close>

text \<open>
  The component is generic in its items (\<^verbatim>\<open>AutocompleteProps<unknown>\<close>), so an item is any
  JavaScript value. The values the component can tell apart are modelled by a datatype:
  the component reads an item only through truthiness (\<^verbatim>\<open>items[index] && ...\<close>), through
  the caller's callbacks, and through \<^verbatim>\<open>undefined\<close>, which an array read out of range
  returns. Numbers are integers here.
\<close>

datatype jsval =
    JUndefined
  | JNull
  | JBool bool
  | JNum int
  | JStr string
  | JObj "(string \<times> jsval) list"

fun truthy :: "jsval \<Rightarrow> bool" where
  "truthy JUndefined = False"
| "truthy JNull = False"
| "truthy (JBool b) = b"
| "truthy (JNum n) = (n \<noteq> 0)"
| "truthy (JStr s) = (s \<noteq> [])"
| "truthy (JObj fs) = True"

text \<open>\<^verbatim>\<open>xs[i]\<close>: \<^verbatim>\<open>undefined\<close> out of range.\<close>

definition js_nth :: "jsval list \<Rightarrow> int \<Rightarrow> jsval" where
  "js_nth xs i = (if 0 \<le> i \<and> i < int (length xs) then xs ! nat i else JUndefined)"

text \<open>
  \<^verbatim>\<open>a % b\<close> on integers: the remainder has the sign of the dividend. (For \<open>b = 0\<close>
  JavaScript gives NaN; the loops below run only over a non-empty array.)
\<close>

definition js_rem :: "int \<Rightarrow> int \<Rightarrow> int" where
  "js_rem a b = sgn a * (\<bar>a\<bar> mod \<bar>b\<bar>)"

text \<open>
  \<^verbatim>\<open>Array.prototype.sort(comparefn)\<close>: the comparison puts \<^verbatim>\<open>undefined\<close> last without
  calling \<open>comparefn\<close>; the sort is stable. It is modelled by a stable insertion sort, which
  for a consistent comparator gives the one result every conforming engine gives.
\<close>

definition sortCompare :: "(jsval \<Rightarrow> jsval \<Rightarrow> int) \<Rightarrow> jsval \<Rightarrow> jsval \<Rightarrow> int" where
  "sortCompare comparefn x y =
     (if x = JUndefined \<and> y = JUndefined then 0
      else if x = JUndefined then 1
      else if y = JUndefined then - 1
      else comparefn x y)"

fun sort_insert :: "(jsval \<Rightarrow> jsval \<Rightarrow> int) \<Rightarrow> jsval \<Rightarrow> jsval list \<Rightarrow> jsval list" where
  "sort_insert comparefn x [] = [x]"
| "sort_insert comparefn x (y # ys) =
     (if sortCompare comparefn x y \<le> 0 then x # y # ys
      else y # sort_insert comparefn x ys)"

definition js_sort :: "(jsval \<Rightarrow> jsval \<Rightarrow> int) \<Rightarrow> jsval list \<Rightarrow> jsval list" where
  "js_sort comparefn xs = foldr (sort_insert comparefn) xs []"

text \<open>
  Arrays are objects with identity: the store maps a reference (an address) to the array's
  contents. \<^verbatim>\<open>filter\<close> allocates a new array; \<^verbatim>\<open>sort\<close> sorts the array it is called on in
  place and returns the same reference. A reference that a program holds is an address of
  the store (\<open>r < length h\<close>); the facts that depend on it assume it.
\<close>

type_synonym ref = nat
type_synonym heap = "jsval list list"

definition deref :: "heap \<Rightarrow> ref \<Rightarrow> jsval list" where
  "deref h r = h ! r"

definition array_filter :: "(jsval \<Rightarrow> bool) \<Rightarrow> ref \<Rightarrow> heap \<Rightarrow> heap \<times> ref" where
  "array_filter f r h = (h @ [filter f (deref h r)], length h)"

definition array_sort :: "(jsval \<Rightarrow> jsval \<Rightarrow> int) \<Rightarrow> ref \<Rightarrow> heap \<Rightarrow> heap" where
  "array_sort comparefn r h = h[r := js_sort comparefn (deref h r)]"

section \<open>Strings\<close>

text \<open>
  A string is the sequence of its code units, a \<open>char\<close> standing for one code unit.
  \<^verbatim>\<open>String.prototype.indexOf\<close> is the position of the first occurrence, or \<open>-1\<close>.
  \<^verbatim>\<open>String.prototype.toLowerCase\<close> is the engine's lower-casing of every cased letter of
  Unicode; it is no part of the source, so the functions that call it take it as the
  parameter \<open>toLowerCase\<close>, and what is proved of them holds whatever that function is.
\<close>

fun indexOf_from :: "string \<Rightarrow> string \<Rightarrow> nat \<Rightarrow> int" where
  "indexOf_from [] pat k = (if pat = [] then int k else - 1)"
| "indexOf_from (c # s) pat k =
     (if prefix pat (c # s) then int k else indexOf_from s pat (Suc k))"

definition indexOf :: "string \<Rightarrow> string \<Rightarrow> int" where
  "indexOf s pat = indexOf_from s pat 0"

section \<open>Props, state and effects\<close>

text \<open>
  The props the interaction logic reads. \<open>items\<close> is a reference to the caller's array.
  An optional callback is an \<open>option\<close>; \<open>isItemSelectable\<close>, \<open>autoHighlight\<close>,
  \<open>selectOnBlur\<close> and \<open>value\<close> have defaults (\<open>defaultProps\<close>), so they are always
  present. \<open>open\<close> is \<open>None\<close> when the caller's props have no \<^verbatim>\<open>open\<close> key. The callbacks
  without a result (\<^verbatim>\<open>onSelect\<close>, \<^verbatim>\<open>onChange\<close>, \<^verbatim>\<open>onMenuVisibilityChange\<close>,
  \<^verbatim>\<open>inputProps.onBlur\<close>, \<^verbatim>\<open>inputProps.onFocus\<close>) are effects: a call is recorded in the
  trace.
\<close>

record props =
  items :: ref
  "value" :: string
  shouldItemRender :: "(jsval \<Rightarrow> string \<Rightarrow> bool) option"
  isItemSelectable :: "jsval \<Rightarrow> bool"
  sortItems :: "(jsval \<Rightarrow> jsval \<Rightarrow> string \<Rightarrow> int) option"
  getItemValue :: "jsval \<Rightarrow> string"
  autoHighlight :: bool
  selectOnBlur :: bool
  "open" :: "bool option"
  inputProps_onBlur :: bool
  inputProps_onFocus :: bool

datatype effect =
    PreventDefault
  | InputSelect
  | InputSetSelectionRange nat nat
  | InputFocus
  | OnSelect string jsval
  | OnChange string
  | OnMenuVisibilityChange bool
  | OnBlur
  | OnFocus
  | ScrollTo int int
  | ThrowTypeError

text \<open>
  The world a handler runs in: the store, \<^verbatim>\<open>this.state\<close> (\<open>isOpen\<close>,
  \<open>highlightedIndex\<close>), the instance's private fields (\<^verbatim>\<open>_ignoreBlur\<close>, \<^verbatim>\<open>_ignoreFocus\<close>,
  \<^verbatim>\<open>_scrollOffset\<close>, \<^verbatim>\<open>_scrollTimer\<close>: the pending deferred scroll), the trace of effects
  so far. The menu geometry (\<^verbatim>\<open>menuTop\<close>, \<^verbatim>\<open>menuLeft\<close>, \<^verbatim>\<open>menuWidth\<close>) is measured
  from the DOM and is left out. While React runs a handler, the world also holds the
  \<^verbatim>\<open>setState\<close> callbacks that wait for the commit (\<open>handling\<close>).
\<close>

record world =
  heap :: heap
  isOpen :: bool
  highlightedIndex :: "int option"
  ignoreBlur :: bool
  ignoreFocus :: bool
  scrollOffset :: "(int \<times> int) option"
  scrollTimer :: "(int \<times> int) option"
  effects :: "effect list"

record handling = world +
  callbacks :: "effect list"

datatype key = Key_ArrowDown | Key_ArrowUp | Key_Enter | Key_Escape | Key_Tab | Key_Other string

record keyboardEvent =
  key :: key
  keyCode :: int

text \<open>The constructor and \<^verbatim>\<open>componentWillMount\<close>.\<close>

definition initial_world :: "heap \<Rightarrow> world" where
  "initial_world h =
     \<lparr>heap = h, isOpen = False, highlightedIndex = None, ignoreBlur = False,
      ignoreFocus = False, scrollOffset = None, scrollTimer = None, effects = []\<rparr>"

text \<open>
  \<^verbatim>\<open>this.setState(update, callback)\<close>. No handler reads \<^verbatim>\<open>this.state\<close> after it has called
  \<^verbatim>\<open>setState\<close>, so the update is applied at once; the callback waits for the commit.
  \<open>react_event\<close> is React running a handler: the handler, started with no callback
  waiting, then the commit, where \<^verbatim>\<open>componentDidUpdate\<close> reports a change of \<open>isOpen\<close> to
  \<^verbatim>\<open>onMenuVisibilityChange\<close> and the waiting callbacks run.
\<close>

definition setState :: "(handling \<Rightarrow> handling) \<Rightarrow> effect list \<Rightarrow> handling \<Rightarrow> handling" where
  "setState update callback w = (update w)\<lparr>callbacks := callbacks (update w) @ callback\<rparr>"

definition componentDidUpdate :: "world \<Rightarrow> handling \<Rightarrow> effect list" where
  "componentDidUpdate prevState w =
     (if isOpen prevState \<noteq> isOpen w then [OnMenuVisibilityChange (isOpen w)] else [])"

definition react_event :: "(handling \<Rightarrow> handling) \<Rightarrow> world \<Rightarrow> world" where
  "react_event handler w =
     (let w' = handler (world.extend w \<lparr>callbacks = []\<rparr>)
      in (world.truncate w')\<lparr>effects := effects w' @ componentDidUpdate w w' @ callbacks w'\<rparr>)"

definition this_isOpen :: "props \<Rightarrow> 'a world_scheme \<Rightarrow> bool" where
  "this_isOpen p w = (case open p of Some b \<Rightarrow> b | None \<Rightarrow> isOpen w)"

definition setIgnoreBlur :: "bool \<Rightarrow> 'a world_scheme \<Rightarrow> 'a world_scheme" where
  "setIgnoreBlur ignore w = w\<lparr>ignoreBlur := ignore\<rparr>"

section \<open>Filtering and sorting\<close>

definition getFilteredItems :: "props \<Rightarrow> heap \<Rightarrow> heap \<times> ref" where
  "getFilteredItems p h =
     (let (h1, items1) =
            (case shouldItemRender p of
               None \<Rightarrow> (h, items p)
             | Some f \<Rightarrow> array_filter (\<lambda>item. f item (value p)) (items p) h);
          h2 =
            (case sortItems p of
               None \<Rightarrow> h1
             | Some f \<Rightarrow> array_sort (\<lambda>a b. f a b (value p)) items1 h1)
      in (h2, items1))"

text \<open>The contents of the array \<open>getFilteredItems\<close> returns: the filtered view.\<close>

definition filteredView :: "props \<Rightarrow> heap \<Rightarrow> jsval list" where
  "filteredView p h = deref (fst (getFilteredItems p h)) (snd (getFilteredItems p h))"

section \<open>Keyboard navigation\<close>

text \<open>
  The \<^verbatim>\<open>for\<close> loop of \<^verbatim>\<open>keyDownHandlers.ArrowDown\<close>, called with \<open>i = 0\<close>; the result is the
  value of \<open>index\<close> after the loop. \<open>index\<close> changes only at the \<^verbatim>\<open>break\<close>.
\<close>

function arrowDown_loop :: "(jsval \<Rightarrow> bool) \<Rightarrow> jsval list \<Rightarrow> int \<Rightarrow> nat \<Rightarrow> int" where
  "arrowDown_loop selectable its index i =
     (if i < length its then
        (if selectable (js_nth its (js_rem (index + int i + 1) (int (length its))))
         then js_rem (index + int i + 1) (int (length its))
         else arrowDown_loop selectable its index (i + 1))
      else index)"
  by pat_completeness auto
termination
  by (relation "measure (\<lambda>(selectable, its, index, i). length its - i)") auto

declare arrowDown_loop.simps [simp del]

definition keyDownHandlers_ArrowDown :: "props \<Rightarrow> handling \<Rightarrow> handling" where
  "keyDownHandlers_ArrowDown p w =
     (let w1 = w\<lparr>effects := effects w @ [PreventDefault]\<rparr>;
          (h, r) = getFilteredItems p (heap w1);
          w2 = w1\<lparr>heap := h\<rparr>;
          its = deref h r
      in if length its = 0 then w2
         else
           (let index0 = (case highlightedIndex w2 of None \<Rightarrow> - 1 | Some k \<Rightarrow> k);
                index = arrowDown_loop (isItemSelectable p) its index0 0
            in if index > - 1 \<and> Some index \<noteq> highlightedIndex w2
               then setState (\<lambda>s. s\<lparr>highlightedIndex := Some index, isOpen := True\<rparr>) [] w2
               else w2))"

text \<open>The loop of \<^verbatim>\<open>keyDownHandlers.ArrowUp\<close>.\<close>

function arrowUp_loop :: "(jsval \<Rightarrow> bool) \<Rightarrow> jsval list \<Rightarrow> int \<Rightarrow> nat \<Rightarrow> int" where
  "arrowUp_loop selectable its index i =
     (if i < length its then
        (if selectable
              (js_nth its (js_rem (index - (1 + int i) + int (length its)) (int (length its))))
         then js_rem (index - (1 + int i) + int (length its)) (int (length its))
         else arrowUp_loop selectable its index (i + 1))
      else index)"
  by pat_completeness auto
termination
  by (relation "measure (\<lambda>(selectable, its, index, i). length its - i)") auto

declare arrowUp_loop.simps [simp del]

definition keyDownHandlers_ArrowUp :: "props \<Rightarrow> handling \<Rightarrow> handling" where
  "keyDownHandlers_ArrowUp p w =
     (let w1 = w\<lparr>effects := effects w @ [PreventDefault]\<rparr>;
          (h, r) = getFilteredItems p (heap w1);
          w2 = w1\<lparr>heap := h\<rparr>;
          its = deref h r
      in if length its = 0 then w2
         else
           (let index0 =
                  (case highlightedIndex w2 of None \<Rightarrow> int (length its) | Some k \<Rightarrow> k);
                index = arrowUp_loop (isItemSelectable p) its index0 0
            in if index \<noteq> int (length its)
               then setState (\<lambda>s. s\<lparr>highlightedIndex := Some index, isOpen := True\<rparr>) [] w2
               else w2))"

definition keyDownHandlers_Enter :: "props \<Rightarrow> keyboardEvent \<Rightarrow> handling \<Rightarrow> handling" where
  "keyDownHandlers_Enter p event w =
     (if keyCode event \<noteq> 13 then w
      else
        (let w1 = setIgnoreBlur False w
         in if \<not> this_isOpen p w1 then w1
            else
              (case highlightedIndex w1 of
                 None \<Rightarrow> setState (\<lambda>s. s\<lparr>isOpen := False\<rparr>) [InputSelect] w1
               | Some k \<Rightarrow>
                   (let w2 = w1\<lparr>effects := effects w1 @ [PreventDefault]\<rparr>;
                        (h, r) = getFilteredItems p (heap w2);
                        item = js_nth (deref h r) k;
                        v = getItemValue p item
                    in setState (\<lambda>s. s\<lparr>isOpen := False, highlightedIndex := None\<rparr>)
                         [InputSetSelectionRange (length v) (length v), OnSelect v item]
                         (w2\<lparr>heap := h\<rparr>)))))"

definition keyDownHandlers_Escape :: "handling \<Rightarrow> handling" where
  "keyDownHandlers_Escape w =
     setState (\<lambda>s. s\<lparr>highlightedIndex := None, isOpen := False\<rparr>) []
       (setIgnoreBlur False w)"

definition keyDownHandlers_Tab :: "handling \<Rightarrow> handling" where
  "keyDownHandlers_Tab w = setIgnoreBlur False w"

definition handleKeyDown :: "props \<Rightarrow> keyboardEvent \<Rightarrow> handling \<Rightarrow> handling" where
  "handleKeyDown p event w =
     (case key event of
        Key_ArrowDown \<Rightarrow> keyDownHandlers_ArrowDown p w
      | Key_ArrowUp \<Rightarrow> keyDownHandlers_ArrowUp p w
      | Key_Enter \<Rightarrow> keyDownHandlers_Enter p event w
      | Key_Escape \<Rightarrow> keyDownHandlers_Escape w
      | Key_Tab \<Rightarrow> keyDownHandlers_Tab w
      | Key_Other k \<Rightarrow>
          (if \<not> this_isOpen p w then setState (\<lambda>s. s\<lparr>isOpen := True\<rparr>) [] w else w))"

definition handleChange :: "string \<Rightarrow> handling \<Rightarrow> handling" where
  "handleChange targetValue w = w\<lparr>effects := effects w @ [OnChange targetValue]\<rparr>"

section \<open>Derived state on a change of props\<close>

text \<open>The loop of \<^verbatim>\<open>maybeAutoCompleteText\<close>: here \<open>index\<close> moves in every round.\<close>

function autoComplete_loop :: "(jsval \<Rightarrow> bool) \<Rightarrow> jsval list \<Rightarrow> int \<Rightarrow> nat \<Rightarrow> int" where
  "autoComplete_loop selectable its index i =
     (if i < length its then
        (if selectable (js_nth its index) then index
         else autoComplete_loop selectable its (js_rem (index + 1) (int (length its))) (i + 1))
      else index)"
  by pat_completeness auto
termination
  by (relation "measure (\<lambda>(selectable, its, index, i). length its - i)") auto

declare autoComplete_loop.simps [simp del]

text \<open>
  The two state updaters. Each returns the state with the partial state it computes merged
  in (and the store as \<open>getFilteredItems\<close> left it). In \<^verbatim>\<open>ensureHighlightedIndex\<close> the
  comparison \<^verbatim>\<open>state.highlightedIndex >= length\<close> reads \<^verbatim>\<open>null\<close> as 0.
\<close>

definition maybeAutoCompleteText ::
  "(string \<Rightarrow> string) \<Rightarrow> props \<Rightarrow> handling \<Rightarrow> handling" where
  "maybeAutoCompleteText toLowerCase p w =
     (let index0 = (case highlightedIndex w of None \<Rightarrow> 0 | Some k \<Rightarrow> k);
          (h, r) = getFilteredItems p (heap w);
          w1 = w\<lparr>heap := h\<rparr>;
          its = deref h r;
          index = autoComplete_loop (isItemSelectable p) its index0 0;
          matchedItem =
            (if truthy (js_nth its index) \<and> isItemSelectable p (js_nth its index)
             then js_nth its index else JNull)
      in if value p \<noteq> [] \<and> truthy matchedItem
            \<and> indexOf (toLowerCase (getItemValue p matchedItem)) (toLowerCase (value p)) = 0
         then w1\<lparr>highlightedIndex := Some index\<rparr>
         else w1\<lparr>highlightedIndex := None\<rparr>)"

definition ensureHighlightedIndex :: "props \<Rightarrow> handling \<Rightarrow> handling" where
  "ensureHighlightedIndex p w =
     (let (h, r) = getFilteredItems p (heap w);
          w1 = w\<lparr>heap := h\<rparr>
      in if (case highlightedIndex w of None \<Rightarrow> 0 | Some k \<Rightarrow> k) \<ge> int (length (deref h r))
         then w1\<lparr>highlightedIndex := None\<rparr>
         else w1)"

text \<open>
  \<^verbatim>\<open>componentWillReceiveProps(nextProps)\<close>: both conditions read the state as it is when the
  props arrive; React then runs the queued updaters in order, each with \<open>nextProps\<close>.
\<close>

definition componentWillReceiveProps ::
  "(string \<Rightarrow> string) \<Rightarrow> props \<Rightarrow> props \<Rightarrow> handling \<Rightarrow> handling" where
  "componentWillReceiveProps toLowerCase this_props nextProps w =
     (let w1 =
            (if highlightedIndex w \<noteq> None
             then setState (ensureHighlightedIndex nextProps) [] w else w)
      in if autoHighlight nextProps
            \<and> (value this_props \<noteq> value nextProps \<or> highlightedIndex w = None)
         then setState (maybeAutoCompleteText toLowerCase nextProps) [] w1
         else w1)"

section \<open>Mouse, focus and blur\<close>

definition highlightItemFromMouse :: "int \<Rightarrow> handling \<Rightarrow> handling" where
  "highlightItemFromMouse index w = setState (\<lambda>s. s\<lparr>highlightedIndex := Some index\<rparr>) [] w"

definition selectItemFromMouse :: "props \<Rightarrow> jsval \<Rightarrow> handling \<Rightarrow> handling" where
  "selectItemFromMouse p item w =
     (let v = getItemValue p item
      in setState (\<lambda>s. s\<lparr>isOpen := False, highlightedIndex := None\<rparr>) [OnSelect v item]
           (setIgnoreBlur False w))"

text \<open>
  The handlers \<^verbatim>\<open>renderMenu\<close> attaches to the element of an item: both are \<^verbatim>\<open>null\<close> for an
  item that is not selectable. A mouse event on an item runs the handler, if there is one.
\<close>

definition item_onClick :: "props \<Rightarrow> jsval \<Rightarrow> (handling \<Rightarrow> handling) option" where
  "item_onClick p item =
     (if isItemSelectable p item then Some (selectItemFromMouse p item) else None)"

definition item_onMouseEnter :: "props \<Rightarrow> jsval \<Rightarrow> nat \<Rightarrow> (handling \<Rightarrow> handling) option" where
  "item_onMouseEnter p item index =
     (if isItemSelectable p item then Some (highlightItemFromMouse (int index)) else None)"

definition fire :: "(handling \<Rightarrow> handling) option \<Rightarrow> world \<Rightarrow> world" where
  "fire handler w = (case handler of None \<Rightarrow> w | Some f \<Rightarrow> react_event f w)"

text \<open>
  \<^verbatim>\<open>renderMenu\<close> itself computes the filtered view again, so a render of the open menu
  leaves the store as \<open>getFilteredItems\<close> leaves it.
\<close>

definition render :: "props \<Rightarrow> world \<Rightarrow> world" where
  "render p w = (if this_isOpen p w then w\<lparr>heap := fst (getFilteredItems p (heap w))\<rparr> else w)"

text \<open>
  \<^verbatim>\<open>handleInputBlur\<close>; \<open>scroll\<close> is what \<^verbatim>\<open>getScrollOffset()\<close> reads from the window. The call
  \<^verbatim>\<open>this.refs.input.focus()\<close> is the effect \<open>InputFocus\<close>; the focus event it causes is an
  event of its own (\<open>handleInputFocus\<close>).
\<close>

definition handleInputBlur :: "props \<Rightarrow> int \<times> int \<Rightarrow> handling \<Rightarrow> handling" where
  "handleInputBlur p scroll w =
     (if ignoreBlur w
      then w\<lparr>ignoreFocus := True, scrollOffset := Some scroll,
             effects := effects w @ [InputFocus]\<rparr>
      else
        (let (w1, setStateCallback) =
               (case highlightedIndex w of
                  Some k \<Rightarrow>
                    (if selectOnBlur p
                     then
                       (let (h, r) = getFilteredItems p (heap w);
                            item = js_nth (deref h r) k;
                            v = getItemValue p item
                        in (w\<lparr>heap := h\<rparr>, [OnSelect v item]))
                     else (w, []))
                | None \<Rightarrow> (w, []));
             w2 = setState (\<lambda>s. s\<lparr>isOpen := False, highlightedIndex := None\<rparr>)
                    setStateCallback w1
         in if inputProps_onBlur p then w2\<lparr>effects := effects w2 @ [OnBlur]\<rparr> else w2))"

text \<open>
  \<^verbatim>\<open>handleInputFocus\<close>. Destructuring a \<^verbatim>\<open>null\<close> \<^verbatim>\<open>_scrollOffset\<close> throws; the timer set at
  the end holds the offset its callback will scroll to.
\<close>

definition handleInputFocus :: "props \<Rightarrow> handling \<Rightarrow> handling" where
  "handleInputFocus p w =
     (if ignoreFocus w
      then
        (let w1 = w\<lparr>ignoreFocus := False\<rparr>
         in case scrollOffset w1 of
              None \<Rightarrow> w1\<lparr>effects := effects w1 @ [ThrowTypeError]\<rparr>
            | Some (x, y) \<Rightarrow>
                w1\<lparr>scrollOffset := None, effects := effects w1 @ [ScrollTo x y],
                    scrollTimer := Some (x, y)\<rparr>)
      else
        (let w1 = setState (\<lambda>s. s\<lparr>isOpen := True\<rparr>) [] w
         in if inputProps_onFocus p then w1\<lparr>effects := effects w1 @ [OnFocus]\<rparr> else w1))"

text \<open>The callback of the timer.\<close>

definition scrollTimer_fires :: "world \<Rightarrow> world" where
  "scrollTimer_fires w =
     (case scrollTimer w of
        None \<Rightarrow> w
      | Some (x, y) \<Rightarrow> w\<lparr>scrollTimer := None, effects := effects w @ [ScrollTo x y]\<rparr>)"

text \<open>\<^verbatim>\<open>handleInputClick\<close>; \<open>focused\<close> is what \<^verbatim>\<open>isInputFocused()\<close> reads from the DOM.\<close>

definition handleInputClick :: "props \<Rightarrow> bool \<Rightarrow> handling \<Rightarrow> handling" where
  "handleInputClick p focused w =
     (if focused \<and> \<not> this_isOpen p w then setState (\<lambda>s. s\<lparr>isOpen := True\<rparr>) [] w else w)"

section \<open>The component as a transition system\<close>

text \<open>
  The states the mounted component reaches, with the props it has there. Every event is
  handled to its end before the next one arrives; \<open>toLowerCase\<close> is the engine's
  lower-casing, the same in every state. The caller changes the store only
  together with the props, as it likes, as long as \<open>items\<close> is an array of the store; the
  component then runs \<^verbatim>\<open>componentWillReceiveProps\<close>. The menu and its items take mouse
  events only while the menu is rendered, and an item's index is its position in the
  filtered view. Scrolling the highlighted item into view and measuring the menu's position
  (\<^verbatim>\<open>componentDidUpdate\<close>) touch the DOM only.
\<close>

inductive reachable :: "(string \<Rightarrow> string) \<Rightarrow> props \<Rightarrow> world \<Rightarrow> bool"
  for toLowerCase :: "string \<Rightarrow> string" where
  mount: "items p < length h \<Longrightarrow> reachable toLowerCase p (initial_world h)"
| receiveProps:
    "reachable toLowerCase p w \<Longrightarrow> items p' < length h' \<Longrightarrow>
     reachable toLowerCase p' (react_event (componentWillReceiveProps toLowerCase p p') (w\<lparr>heap := h'\<rparr>))"
| rerender: "reachable toLowerCase p w \<Longrightarrow> reachable toLowerCase p (render p w)"
| keyDown: "reachable toLowerCase p w \<Longrightarrow> reachable toLowerCase p (react_event (handleKeyDown p event) w)"
| change: "reachable toLowerCase p w \<Longrightarrow> reachable toLowerCase p (react_event (handleChange v) w)"
| blur: "reachable toLowerCase p w \<Longrightarrow> reachable toLowerCase p (react_event (handleInputBlur p scroll) w)"
| focus: "reachable toLowerCase p w \<Longrightarrow> reachable toLowerCase p (react_event (handleInputFocus p) w)"
| click: "reachable toLowerCase p w \<Longrightarrow> reachable toLowerCase p (react_event (handleInputClick p focused) w)"
| timer: "reachable toLowerCase p w \<Longrightarrow> reachable toLowerCase p (scrollTimer_fires w)"
| menuPointer:
    "reachable toLowerCase p w \<Longrightarrow> this_isOpen p w \<Longrightarrow> reachable toLowerCase p (setIgnoreBlur ignore w)"
| itemMouseEnter:
    "reachable toLowerCase p w \<Longrightarrow> this_isOpen p w \<Longrightarrow> i < length (filteredView p (heap w)) \<Longrightarrow>
     reachable toLowerCase p (fire (item_onMouseEnter p (filteredView p (heap w) ! i) i) w)"
| itemClick:
    "reachable toLowerCase p w \<Longrightarrow> this_isOpen p w \<Longrightarrow> i < length (filteredView p (heap w)) \<Longrightarrow>
     reachable toLowerCase p (fire (item_onClick p (filteredView p (heap w) ! i)) w)"

text \<open>
  The invariant of the data model: the highlighted index, if present, is an index into
  the filtered view of the current props.
\<close>

definition highlight_valid :: "props \<Rightarrow> 'a world_scheme \<Rightarrow> bool" where
  "highlight_valid p w =
     (case highlightedIndex w of
        None \<Rightarrow> True
      | Some i \<Rightarrow> 0 \<le> i \<and> i < int (length (filteredView p (heap w))))"

section \<open>The order of a search among the items\<close>

text \<open>
  What the handlers are expected to compute, in the words of the specification: the
  positions of the view in circular order from a starting position (\<open>start\<close>,
  \<open>start + 1\<close>, \<dots>, wrapping after the last position to the first), and the first
  position in a given order whose item is selectable.
\<close>

definition circular_order :: "nat \<Rightarrow> nat \<Rightarrow> nat list" where
  "circular_order n start = rotate start [0..<n]"

definition first_selectable :: "(jsval \<Rightarrow> bool) \<Rightarrow> jsval list \<Rightarrow> nat list \<Rightarrow> nat option" where
  "first_selectable selectable its order = find (\<lambda>j. selectable (its ! j)) order"

section \<open>Reading the trace\<close>

text \<open>The calls of \<^verbatim>\<open>props.onSelect\<close> in a trace, in order, each with its two arguments.\<close>

fun onSelect_calls :: "effect list \<Rightarrow> (string \<times> jsval) list" where
  "onSelect_calls [] = []"
| "onSelect_calls (OnSelect v item # es) = (v, item) # onSelect_calls es"
| "onSelect_calls (e # es) = onSelect_calls es"

section \<open>Example inputs\<close>

text \<open>
  The lower-casing of the examples: on a string of ASCII characters, as every string of the
  examples is, \<^verbatim>\<open>toLowerCase\<close> turns the letters A to Z into a to z and leaves the rest.
\<close>

definition toLowerCase_ascii_char :: "char \<Rightarrow> char" where
  "toLowerCase_ascii_char c =
     (case map_of (zip ''ABCDEFGHIJKLMNOPQRSTUVWXYZ'' ''abcdefghijklmnopqrstuvwxyz'') c of
        None \<Rightarrow> c
      | Some l \<Rightarrow> l)"

definition toLowerCase_ascii :: "string \<Rightarrow> string" where
  "toLowerCase_ascii s = map toLowerCase_ascii_char s"

definition compareNumbers :: "jsval \<Rightarrow> jsval \<Rightarrow> string \<Rightarrow> int" where
  "compareNumbers a b v = (case (a, b) of (JNum x, JNum y) \<Rightarrow> x - y | _ \<Rightarrow> 0)"

text \<open>
  A \<open>getItemValue\<close> for the examples: a string is shown as it is, a number from 0 to 9 by
  its digit, and anything else by the empty string.
\<close>

definition itemString :: "jsval \<Rightarrow> string" where
  "itemString item =
     (case item of
        JStr s \<Rightarrow> s
      | JNum n \<Rightarrow> (if 0 \<le> n \<and> n < 10 then [''0123456789'' ! nat n] else [])
      | _ \<Rightarrow> [])"

definition defaultProps :: "ref \<Rightarrow> props" where
  "defaultProps r =
     \<lparr>items = r, value = [], shouldItemRender = None, isItemSelectable = (\<lambda>item. True),
      sortItems = None, getItemValue = itemString, autoHighlight = True,
      selectOnBlur = False, open = None, inputProps_onBlur = False,
      inputProps_onFocus = False\<rparr>"

definition numbers_heap :: heap where
  "numbers_heap = [[JNum 3, JNum 1, JNum 2]]"

definition sorting_props :: props where
  "sorting_props = (defaultProps 0)\<lparr>sortItems := Some compareNumbers\<rparr>"

definition startsWith_value :: "jsval \<Rightarrow> string \<Rightarrow> bool" where
  "startsWith_value item v = prefix v (itemString item)"

definition fruit_heap :: heap where
  "fruit_heap = [[JStr ''apple'', JStr ''banana'', JStr ''apricot'']]"

definition filtering_props :: props where
  "filtering_props =
     (defaultProps 0)\<lparr>value := ''ap'', shouldItemRender := Some startsWith_value\<rparr>"

definition fruit_props :: props where
  "fruit_props = defaultProps 0"

definition closed_by_caller :: props where
  "closed_by_caller = (defaultProps 0)\<lparr>open := Some False\<rparr>"

definition opened_by_caller :: props where
  "opened_by_caller = (defaultProps 0)\<lparr>open := Some True\<rparr>"

definition menu_world :: "heap \<Rightarrow> int option \<Rightarrow> bool \<Rightarrow> world" where
  "menu_world h hi pointer_over_menu =
     (initial_world h)\<lparr>isOpen := True, highlightedIndex := hi,
                         ignoreBlur := pointer_over_menu\<rparr>"

definition hovered_world :: world where
  "hovered_world = (initial_world fruit_heap)\<lparr>ignoreBlur := True\<rparr>"

definition enter_event :: keyboardEvent where
  "enter_event = \<lparr>key = Key_Enter, keyCode = 13\<rparr>"

definition ime_enter_event :: keyboardEvent where
  "ime_enter_event = \<lparr>key = Key_Enter, keyCode = 229\<rparr>"

definition skip_banana :: "jsval \<Rightarrow> bool" where
  "skip_banana item = (item \<noteq> JStr ''banana'')"

definition picky_props :: props where
  "picky_props = (defaultProps 0)\<lparr>isItemSelectable := skip_banana\<rparr>"

definition never_selectable :: "jsval \<Rightarrow> bool" where
  "never_selectable item = False"

definition disabled_props :: props where
  "disabled_props = (defaultProps 0)\<lparr>isItemSelectable := never_selectable\<rparr>"

definition arrowDown_event :: keyboardEvent where
  "arrowDown_event = \<lparr>key = Key_ArrowDown, keyCode = 40\<rparr>"

definition arrowUp_event :: keyboardEvent where
  "arrowUp_event = \<lparr>key = Key_ArrowUp, keyCode = 38\<rparr>"

definition typed_a_props :: props where
  "typed_a_props = (defaultProps 0)\<lparr>value := ''a''\<rparr>"

definition typed_ap_props :: props where
  "typed_ap_props = (defaultProps 0)\<lparr>value := ''ap''\<rparr>"

definition typed_Ap_props :: props where
  "typed_Ap_props = (defaultProps 0)\<lparr>value := ''Ap''\<rparr>"

definition no_autoHighlight_props :: props where
  "no_autoHighlight_props = (defaultProps 0)\<lparr>value := ''ap'', autoHighlight := False\<rparr>"

definition shrunk_heap :: heap where
  "shrunk_heap = [[JStr ''apple'', JStr ''apricot'']]"

definition last_highlighted_world :: world where
  "last_highlighted_world =
     react_event (handleKeyDown typed_a_props arrowUp_event) (initial_world fruit_heap)"

definition zero_heap :: heap where
  "zero_heap = [[JNum 0, JNum 1]]"

definition typed_0_props :: props where
  "typed_0_props = (defaultProps 0)\<lparr>value := ''0''\<rparr>"

section \<open>Facts about the store and the filtered view\<close>

lemma length_sort_insert: "length (sort_insert c x ys) = Suc (length ys)"
  by (induction ys) auto

lemma length_js_sort: "length (js_sort c xs) = length xs"
  by (induction xs) (auto simp: js_sort_def length_sort_insert)

lemma filteredView_no_sort:
  assumes "sortItems p = None"
  shows "filteredView p h =
           (case shouldItemRender p of
              None \<Rightarrow> deref h (items p)
            | Some f \<Rightarrow> filter (\<lambda>item. f item (value p)) (deref h (items p)))"
  using assms
  by (simp add: filteredView_def getFilteredItems_def array_filter_def deref_def
      split: option.splits)

text \<open>
  C2. Without a \<open>sortItems\<close> comparator the filtered view is the items array filtered by
  \<open>shouldItemRender\<close> (applied to the item and the current value), all of it when there is
  no predicate: exactly the items the predicate accepts, in the order they have in the
  input (a subsequence of it).
\<close>

theorem getFilteredItems_filters_in_order:
  assumes "sortItems p = None"
  shows "(case shouldItemRender p of
            None \<Rightarrow> filteredView p h = deref h (items p)
          | Some f \<Rightarrow>
              filteredView p h = filter (\<lambda>item. f item (value p)) (deref h (items p))
              \<and> set (filteredView p h) = {item \<in> set (deref h (items p)). f item (value p)})
         \<and> subseq (filteredView p h) (deref h (items p))"
  using assms by (auto simp: filteredView_no_sort split: option.splits)

theorem getFilteredItems_filters_in_order_witness:
  "sortItems filtering_props = None
   \<and> filteredView filtering_props fruit_heap = [JStr ''apple'', JStr ''apricot'']
   \<and> subseq (filteredView filtering_props fruit_heap) (deref fruit_heap (items filtering_props))"
  using getFilteredItems_filters_in_order [of filtering_props fruit_heap]
  by (simp add: filtering_props_def defaultProps_def fruit_heap_def deref_def
      startsWith_value_def itemString_def)

text \<open>
  With a \<open>shouldItemRender\<close> predicate the view is a new array, and the caller's array
  stays as it was, sorted view or not; so it does when there is no comparator.
\<close>

lemma getFilteredItems_filter_keeps_items:
  assumes "shouldItemRender p = Some f" and "items p < length h"
  shows "deref (fst (getFilteredItems p h)) (items p) = deref h (items p)"
  using assms
  by (simp add: getFilteredItems_def array_filter_def array_sort_def deref_def nth_append
      split: option.splits)

lemma getFilteredItems_no_sort_keeps_items:
  assumes "sortItems p = None" and "items p < length h"
  shows "deref (fst (getFilteredItems p h)) (items p) = deref h (items p)"
  using assms
  by (simp add: getFilteredItems_def array_filter_def deref_def nth_append
      split: option.splits)

text \<open>
  C3. The claim fails on the code where \<open>sortItems\<close> is supplied and \<open>shouldItemRender\<close>
  is not: \<open>getFilteredItems\<close> then sorts the caller's own array in place. For the items
  \<open>[3, 1, 2]\<close> and a numeric comparator, the caller's array holds \<open>[1, 2, 3]\<close> afterwards.
\<close>

theorem getFilteredItems_sorts_props_items_in_place:
  "shouldItemRender sorting_props = None
   \<and> deref numbers_heap (items sorting_props) = [JNum 3, JNum 1, JNum 2]
   \<and> deref (fst (getFilteredItems sorting_props numbers_heap)) (items sorting_props)
       = [JNum 1, JNum 2, JNum 3]"
  by (simp add: deref_def numbers_heap_def sorting_props_def defaultProps_def
      getFilteredItems_def array_sort_def js_sort_def sortCompare_def compareNumbers_def)

section \<open>Facts about the handlers\<close>

lemma onSelect_calls_append: "onSelect_calls (xs @ ys) = onSelect_calls xs @ onSelect_calls ys"
  by (induction xs rule: onSelect_calls.induct) auto

lemmas event_defs = react_event_def setState_def setIgnoreBlur_def componentDidUpdate_def
  world.extend_def world.truncate_def

text \<open>
  C9. Escape, in every state: the menu is closed (\<open>isOpen\<close> is false), the highlight is
  cleared and the ignore-blur flag is released. Afterwards \<^verbatim>\<open>this.isOpen()\<close> holds only if the
  caller's own \<open>open\<close> prop forces the menu open.
\<close>

theorem escape_closes_and_clears:
  "(let w' = react_event (handleKeyDown p \<lparr>key = Key_Escape, keyCode = c\<rparr>) w
    in isOpen w' = False \<and> highlightedIndex w' = None \<and> ignoreBlur w' = False
       \<and> this_isOpen p w' = (open p = Some True))"
  by (auto simp: handleKeyDown_def keyDownHandlers_Escape_def event_defs Let_def
      this_isOpen_def split: option.splits)

text \<open>
  C8. A blur while the ignore-blur flag is set: \<open>isOpen\<close> and \<open>highlightedIndex\<close> stay as
  they are, the only effect is the call of \<^verbatim>\<open>focus()\<close> on the input (so neither \<^verbatim>\<open>onSelect\<close>
  nor the caller's \<^verbatim>\<open>onBlur\<close> is called), the ignore-focus flag is set and the scroll offset
  is recorded. Nothing else changes.
\<close>

theorem blur_ignored_refocuses:
  assumes "ignoreBlur w"
  shows "(let w' = react_event (handleInputBlur p scroll) w
          in isOpen w' = isOpen w \<and> highlightedIndex w' = highlightedIndex w
             \<and> effects w' = effects w @ [InputFocus]
             \<and> ignoreFocus w' = True \<and> scrollOffset w' = Some scroll
             \<and> w' = w\<lparr>ignoreFocus := True, scrollOffset := Some scroll,
                        effects := effects w @ [InputFocus]\<rparr>)"
  using assms by (simp add: handleInputBlur_def event_defs Let_def)

theorem blur_ignored_refocuses_witness:
  "ignoreBlur (menu_world fruit_heap (Some 1) True)
   \<and> isOpen (react_event (handleInputBlur fruit_props (0, 250))
         (menu_world fruit_heap (Some 1) True)) = True
   \<and> highlightedIndex (react_event (handleInputBlur fruit_props (0, 250))
         (menu_world fruit_heap (Some 1) True)) = Some 1
   \<and> effects (react_event (handleInputBlur fruit_props (0, 250))
         (menu_world fruit_heap (Some 1) True)) = [InputFocus]
   \<and> scrollOffset (react_event (handleInputBlur fruit_props (0, 250))
         (menu_world fruit_heap (Some 1) True)) = Some (0, 250)"
proof -
  have i: "ignoreBlur (menu_world fruit_heap (Some 1) True)"
    by (simp add: menu_world_def)
  show ?thesis
    using blur_ignored_refocuses [OF i, of fruit_props "(0, 250)"] i
    by (simp add: Let_def menu_world_def initial_world_def)
qed

text \<open>
  C7. A click on a selectable item of the open menu: \<^verbatim>\<open>onSelect\<close> is called exactly once
  more, with the item's display value and the item; \<open>isOpen\<close> becomes false, the highlight
  is cleared and the ignore-blur flag is released. Afterwards \<^verbatim>\<open>this.isOpen()\<close> holds only if
  the caller's own \<open>open\<close> prop forces the menu open.
\<close>

theorem click_on_item_selects_it:
  assumes "this_isOpen p w"
    and "i < length (filteredView p (heap w))"
    and "isItemSelectable p (filteredView p (heap w) ! i)"
  shows "(let item = filteredView p (heap w) ! i;
              w' = fire (item_onClick p item) w
          in onSelect_calls (effects w') = onSelect_calls (effects w) @ [(getItemValue p item, item)]
             \<and> isOpen w' = False \<and> highlightedIndex w' = None \<and> ignoreBlur w' = False
             \<and> this_isOpen p w' = (open p = Some True))"
  using assms
  by (auto simp: fire_def item_onClick_def selectItemFromMouse_def event_defs Let_def
      onSelect_calls_append this_isOpen_def split: option.splits)

lemma fruit_view:
  "filteredView fruit_props fruit_heap = [JStr ''apple'', JStr ''banana'', JStr ''apricot'']"
  by (simp add: filteredView_def getFilteredItems_def fruit_props_def defaultProps_def
      fruit_heap_def deref_def)

lemma fruit_props_simps:
  "getItemValue fruit_props (JStr s) = s" "isItemSelectable fruit_props item"
  "open fruit_props = None"
  by (simp_all add: fruit_props_def defaultProps_def itemString_def)

lemma menu_world_simps:
  "heap (menu_world h hi b) = h" "isOpen (menu_world h hi b)"
  "highlightedIndex (menu_world h hi b) = hi" "ignoreBlur (menu_world h hi b) = b"
  "effects (menu_world h hi b) = []"
  by (simp_all add: menu_world_def initial_world_def)

theorem click_on_item_selects_it_witness:
  "this_isOpen fruit_props (menu_world fruit_heap None True)
   \<and> filteredView fruit_props (heap (menu_world fruit_heap None True)) ! 1 = JStr ''banana''
   \<and> onSelect_calls (effects (fire (item_onClick fruit_props (JStr ''banana''))
         (menu_world fruit_heap None True))) = [(''banana'', JStr ''banana'')]
   \<and> isOpen (fire (item_onClick fruit_props (JStr ''banana''))
         (menu_world fruit_heap None True)) = False
   \<and> ignoreBlur (fire (item_onClick fruit_props (JStr ''banana''))
         (menu_world fruit_heap None True)) = False"
proof -
  have o: "this_isOpen fruit_props (menu_world fruit_heap None True)"
    by (simp add: this_isOpen_def fruit_props_simps menu_world_simps)
  have l: "1 < length (filteredView fruit_props (heap (menu_world fruit_heap None True)))"
    by (simp add: menu_world_simps fruit_view)
  have s: "isItemSelectable fruit_props
             (filteredView fruit_props (heap (menu_world fruit_heap None True)) ! 1)"
    by (simp add: fruit_props_simps)
  show ?thesis
    using click_on_item_selects_it [OF o l s] o
    by (simp add: Let_def menu_world_simps fruit_view fruit_props_simps)
qed

text \<open>
  C4, as amended. With the menu open, Enter with key code 13 and a highlighted item calls
  \<^verbatim>\<open>onSelect\<close> exactly once more, with the item's display value and the item, closes the
  menu and clears the highlight; with no highlight \<^verbatim>\<open>onSelect\<close> is not called. Enter with a
  key code other than 13 changes nothing and has no effect at all. Enter with key code 13
  while the menu is closed has no effect and leaves \<open>isOpen\<close> and \<open>highlightedIndex\<close>
  alone, but it releases the ignore-blur flag: the handler clears the flag before it looks
  whether the menu is open.
\<close>

theorem enter_key:
  assumes "key event = Key_Enter"
  shows "(let w' = react_event (handleKeyDown p event) w; view = filteredView p (heap w)
          in (keyCode event = 13 \<and> this_isOpen p w \<longrightarrow>
                (\<forall>k. highlightedIndex w = Some k \<and> 0 \<le> k \<and> k < int (length view) \<longrightarrow>
                   onSelect_calls (effects w') =
                     onSelect_calls (effects w) @ [(getItemValue p (view ! nat k), view ! nat k)]
                   \<and> isOpen w' = False \<and> highlightedIndex w' = None
                   \<and> this_isOpen p w' = (open p = Some True))
                \<and> (highlightedIndex w = None \<longrightarrow>
                     onSelect_calls (effects w') = onSelect_calls (effects w)))
             \<and> (keyCode event = 13 \<and> \<not> this_isOpen p w \<longrightarrow> w' = w\<lparr>ignoreBlur := False\<rparr>)
             \<and> (keyCode event \<noteq> 13 \<longrightarrow> w' = w))"
  using assms
  by (auto simp: Let_def handleKeyDown_def keyDownHandlers_Enter_def event_defs this_isOpen_def
      onSelect_calls_append js_nth_def filteredView_def split: prod.splits option.splits)

theorem enter_key_witness:
  "key enter_event = Key_Enter \<and> keyCode enter_event = 13
   \<and> this_isOpen fruit_props (menu_world fruit_heap (Some 1) False)
   \<and> onSelect_calls (effects (react_event (handleKeyDown fruit_props enter_event)
         (menu_world fruit_heap (Some 1) False))) = [(''banana'', JStr ''banana'')]
   \<and> isOpen (react_event (handleKeyDown fruit_props enter_event)
         (menu_world fruit_heap (Some 1) False)) = False
   \<and> highlightedIndex (react_event (handleKeyDown fruit_props enter_event)
         (menu_world fruit_heap (Some 1) False)) = None
   \<and> onSelect_calls (effects (react_event (handleKeyDown fruit_props enter_event)
         (menu_world fruit_heap None False))) = []
   \<and> key ime_enter_event = Key_Enter \<and> keyCode ime_enter_event = 229
   \<and> react_event (handleKeyDown fruit_props ime_enter_event)
         (menu_world fruit_heap (Some 1) True) = menu_world fruit_heap (Some 1) True"
proof -
  have k: "key enter_event = Key_Enter" and c: "keyCode enter_event = 13"
    by (simp_all add: enter_event_def)
  have k': "key ime_enter_event = Key_Enter" and c': "keyCode ime_enter_event = 229"
    by (simp_all add: ime_enter_event_def)
  have o: "this_isOpen fruit_props (menu_world fruit_heap hi b)" for hi b
    by (simp add: this_isOpen_def fruit_props_simps menu_world_simps)
  have "onSelect_calls (effects (react_event (handleKeyDown fruit_props enter_event)
         (menu_world fruit_heap (Some 1) False))) = [(''banana'', JStr ''banana'')]
     \<and> isOpen (react_event (handleKeyDown fruit_props enter_event)
         (menu_world fruit_heap (Some 1) False)) = False
     \<and> highlightedIndex (react_event (handleKeyDown fruit_props enter_event)
         (menu_world fruit_heap (Some 1) False)) = None"
    using enter_key [OF k, of fruit_props "menu_world fruit_heap (Some 1) False"] c o
    by (simp add: Let_def menu_world_simps fruit_view fruit_props_simps)
  moreover have "onSelect_calls (effects (react_event (handleKeyDown fruit_props enter_event)
         (menu_world fruit_heap None False))) = []"
    using enter_key [OF k, of fruit_props "menu_world fruit_heap None False"] c o
    by (simp add: Let_def menu_world_simps)
  moreover have "react_event (handleKeyDown fruit_props ime_enter_event)
         (menu_world fruit_heap (Some 1) True) = menu_world fruit_heap (Some 1) True"
    using enter_key [OF k', of fruit_props "menu_world fruit_heap (Some 1) True"] c'
    by (simp add: Let_def)
  ultimately show ?thesis
    using k c k' c' o by simp
qed

text \<open>
  The state of the counterexample is one the component reaches: the caller controls
  \<open>open\<close>, the pointer enters the menu, and the caller closes the menu.
\<close>

lemma reachable_hovered_closed: "reachable toLowerCase_ascii closed_by_caller hovered_world"
proof -
  have "reachable toLowerCase_ascii opened_by_caller (initial_world fruit_heap)"
    by (rule reachable.mount) (simp add: opened_by_caller_def defaultProps_def fruit_heap_def)
  then have "reachable toLowerCase_ascii opened_by_caller
      (setIgnoreBlur True (initial_world fruit_heap))"
    by (rule reachable.menuPointer)
      (simp add: this_isOpen_def opened_by_caller_def defaultProps_def)
  then have "reachable toLowerCase_ascii closed_by_caller
     (react_event
        (componentWillReceiveProps toLowerCase_ascii opened_by_caller closed_by_caller)
        ((setIgnoreBlur True (initial_world fruit_heap))\<lparr>heap := fruit_heap\<rparr>))"
    by (rule reachable.receiveProps)
      (simp add: closed_by_caller_def defaultProps_def fruit_heap_def)
  moreover have "react_event
        (componentWillReceiveProps toLowerCase_ascii opened_by_caller closed_by_caller)
        ((setIgnoreBlur True (initial_world fruit_heap))\<lparr>heap := fruit_heap\<rparr>) = hovered_world"
    by (simp add: hovered_world_def event_defs componentWillReceiveProps_def initial_world_def
        maybeAutoCompleteText_def getFilteredItems_def closed_by_caller_def opened_by_caller_def
        defaultProps_def)
  ultimately show ?thesis by simp
qed

text \<open>
  The claim as written fails there: the menu is closed, the key code is 13, and the
  keydown changes the world (the ignore-blur flag, set before, is released).
\<close>

theorem enter_while_closed_releases_ignoreBlur:
  "reachable toLowerCase_ascii closed_by_caller hovered_world
   \<and> key enter_event = Key_Enter \<and> keyCode enter_event = 13
   \<and> this_isOpen closed_by_caller hovered_world = False
   \<and> ignoreBlur hovered_world = True
   \<and> ignoreBlur (react_event (handleKeyDown closed_by_caller enter_event) hovered_world) = False
   \<and> react_event (handleKeyDown closed_by_caller enter_event) hovered_world \<noteq> hovered_world"
proof -
  have a: "ignoreBlur (react_event (handleKeyDown closed_by_caller enter_event) hovered_world)
             = False"
    by (simp add: handleKeyDown_def keyDownHandlers_Enter_def enter_event_def event_defs
        this_isOpen_def closed_by_caller_def defaultProps_def)
  have b: "ignoreBlur hovered_world = True"
    by (simp add: hovered_world_def)
  from a b have "react_event (handleKeyDown closed_by_caller enter_event) hovered_world
                   \<noteq> hovered_world"
    by metis
  with a b reachable_hovered_closed show ?thesis
    by (simp add: enter_event_def this_isOpen_def closed_by_caller_def defaultProps_def)
qed

section \<open>The loops of the keyboard handlers\<close>

lemma find_map_comp: "find Q (map f xs) = map_option f (find (\<lambda>x. Q (f x)) xs)"
  by (induction xs) auto

lemma circular_order_map: "circular_order n s = map (\<lambda>k. (s + k) mod n) [0..<n]"
  by (rule nth_equalityI) (simp_all add: circular_order_def nth_rotate)

lemma rev_upt_map: "rev [0..<n] = map (\<lambda>k. n - 1 - k) [0..<n]"
  by (rule nth_equalityI) (simp_all add: rev_nth)

lemma js_rem_nonneg: "0 \<le> a \<Longrightarrow> 0 < b \<Longrightarrow> js_rem a b = a mod b"
  by (simp add: js_rem_def sgn_if)

lemma js_nth_int: "j < length xs \<Longrightarrow> js_nth xs (int j) = xs ! j"
  by (simp add: js_nth_def)

lemma arrowDown_loop_find:
  "arrowDown_loop sel its index i =
     (case find (\<lambda>k. sel (js_nth its (js_rem (index + int k + 1) (int (length its))))) [i..<length its] of
        None \<Rightarrow> index
      | Some k \<Rightarrow> js_rem (index + int k + 1) (int (length its)))"
proof (induction sel its index i rule: arrowDown_loop.induct)
  case (1 sel its index i)
  show ?case
  proof (cases "i < length its")
    case True
    then have u: "[i..<length its] = i # [i + 1..<length its]"
      by (simp add: upt_conv_Cons)
    show ?thesis
      using True 1 by (subst arrowDown_loop.simps) (simp add: u)
  next
    case False
    then show ?thesis by (subst arrowDown_loop.simps) simp
  qed
qed

lemma arrowDown_loop_first_selectable:
  assumes "- 1 \<le> h"
  shows "arrowDown_loop sel its h 0 =
     (case first_selectable sel its (circular_order (length its) (nat (h + 1))) of
        None \<Rightarrow> h
      | Some j \<Rightarrow> int j)"
proof (cases "length its = 0")
  case True
  then show ?thesis
    by (subst arrowDown_loop.simps) (simp add: first_selectable_def circular_order_def)
next
  case False
  define s where "s = nat (h + 1)"
  have n: "0 < length its" using False by simp
  have P: "js_rem (h + int k + 1) (int (length its)) = int ((s + k) mod length its)" for k
    using assms n by (simp add: js_rem_nonneg s_def zmod_int nat_add_distrib algebra_simps)
  have Q: "(\<lambda>k. sel (js_nth its (int ((s + k) mod length its))))
             = (\<lambda>k. sel (its ! ((s + k) mod length its)))"
    using n by (simp add: js_nth_int)
  show ?thesis
    unfolding arrowDown_loop_find first_selectable_def circular_order_map find_map_comp P Q
      s_def[symmetric]
    by (simp split: option.splits)
qed


lemma first_selectable_Some:
  assumes "first_selectable sel its order = Some j"
  shows "j \<in> set order \<and> sel (its ! j)"
  using assms unfolding first_selectable_def by (auto simp: find_Some_iff)

lemma set_circular_order: "set (circular_order n s) = {0..<n}"
  by (simp add: circular_order_def)

text \<open>
  C5. ArrowDown, for a view \<open>view\<close> and a highlight that is absent or an index \<open>h \<ge> 0\<close>.
  The candidates are the positions after the highlight in circular order (\<open>h + 1\<close>, \<dots>, the
  last, then the first, \<dots>, \<open>h\<close>; from the first position when there is no highlight), and
  the new highlight is the first of them whose item is selectable, so every item that is not
  selectable is skipped. When no item is selectable, or the view is empty, nothing changes
  but the store (as \<open>getFilteredItems\<close> leaves it) and the trace, which gains only
  \<^verbatim>\<open>event.preventDefault()\<close>; so it is when the item found is the highlighted one itself.
  When the highlight changes, \<open>isOpen\<close> becomes true.
\<close>

theorem arrowDown_moves_highlight:
  assumes "key event = Key_ArrowDown"
    and "case highlightedIndex w of None \<Rightarrow> True | Some h \<Rightarrow> 0 \<le> h"
  shows "(let view = filteredView p (heap w);
              start = (case highlightedIndex w of None \<Rightarrow> 0 | Some h \<Rightarrow> nat (h + 1));
              unchanged = w\<lparr>heap := fst (getFilteredItems p (heap w)),
                            effects := effects w @ [PreventDefault]\<rparr>;
              w' = react_event (handleKeyDown p event) w
          in case first_selectable (isItemSelectable p) view (circular_order (length view) start) of
               None \<Rightarrow> w' = unchanged
             | Some j \<Rightarrow>
                 j < length view \<and> isItemSelectable p (view ! j)
                 \<and> highlightedIndex w' = Some (int j)
                 \<and> (if highlightedIndex w = Some (int j) then w' = unchanged
                      else isOpen w' = True))"
proof -
  define view where "view = filteredView p (heap w)"
  define h where "h = (case highlightedIndex w of None \<Rightarrow> - 1 | Some k \<Rightarrow> k)"
  define start where "start = (case highlightedIndex w of None \<Rightarrow> 0 | Some h \<Rightarrow> nat (h + 1))"
  obtain hp r where g: "getFilteredItems p (heap w) = (hp, r)"
    by (cases "getFilteredItems p (heap w)")
  have v: "deref hp r = view"
    using g by (simp add: view_def filteredView_def)
  have h1: "- 1 \<le> h" and st: "start = nat (h + 1)"
    using assms(2) by (auto simp: h_def start_def split: option.splits)
  have hh: "(h = - 1 \<and> highlightedIndex w = None) \<or> highlightedIndex w = Some h"
    by (simp add: h_def split: option.splits)
  note loop = arrowDown_loop_first_selectable [OF h1, of "isItemSelectable p" view, folded st]
  show ?thesis
  proof (cases "first_selectable (isItemSelectable p) view (circular_order (length view) start)")
    case None
    then have "arrowDown_loop (isItemSelectable p) view h 0 = h"
      by (simp add: loop)
    then show ?thesis
      using None assms(1) hh
      by (auto simp: Let_def view_def[symmetric] start_def[symmetric] h_def[symmetric]
          handleKeyDown_def keyDownHandlers_ArrowDown_def g v event_defs)
  next
    case (Some j)
    then have l: "arrowDown_loop (isItemSelectable p) view h 0 = int j"
      by (simp add: loop)
    have j: "j < length view" "isItemSelectable p (view ! j)"
      using first_selectable_Some [OF Some] by (simp_all add: set_circular_order)
    show ?thesis
      using Some assms(1) j l hh
      by (auto simp: Let_def view_def[symmetric] start_def[symmetric] h_def[symmetric]
          handleKeyDown_def keyDownHandlers_ArrowDown_def g v event_defs)
  qed
qed



lemma arrowUp_loop_find:
  "arrowUp_loop sel its index i =
     (case find (\<lambda>k. sel (js_nth its
               (js_rem (index - (1 + int k) + int (length its)) (int (length its)))))
             [i..<length its] of
        None \<Rightarrow> index
      | Some k \<Rightarrow> js_rem (index - (1 + int k) + int (length its)) (int (length its)))"
proof (induction sel its index i rule: arrowUp_loop.induct)
  case (1 sel its index i)
  show ?case
  proof (cases "i < length its")
    case True
    then have u: "[i..<length its] = i # [i + 1..<length its]"
      by (simp add: upt_conv_Cons)
    show ?thesis
      using True 1 by (subst arrowUp_loop.simps) (simp add: u)
  next
    case False
    then show ?thesis by (subst arrowUp_loop.simps) simp
  qed
qed

lemma find_in_set: "find P xs = Some x \<Longrightarrow> x \<in> set xs \<and> P x"
  by (auto simp: find_Some_iff)

lemma arrowUp_index_from_end:
  assumes "k < n"
  shows "js_rem (int n - (1 + int k) + int n) (int n) = int (n - 1 - k)"
proof -
  define a where "a = int (n - 1 - k)"
  have a: "0 \<le> a" "a < int n"
    using assms by (simp_all add: a_def)
  have eq: "int n - (1 + int k) + int n = a + int n"
    unfolding a_def using assms by linarith
  have "js_rem (a + int n) (int n) = (a + int n) mod int n"
    using a by (simp add: js_rem_nonneg)
  also have "\<dots> = a"
    using a by simp
  finally show ?thesis
    by (simp only: eq a_def)
qed

lemma arrowUp_loop_last_selectable:
  "arrowUp_loop sel its (int (length its)) 0 =
     (case first_selectable sel its (rev [0..<length its]) of
        None \<Rightarrow> int (length its)
      | Some j \<Rightarrow> int j)"
proof -
  have F: "find (\<lambda>k. sel (js_nth its
               (js_rem (int (length its) - (1 + int k) + int (length its)) (int (length its)))))
             [0..<length its]
           = find (\<lambda>k. sel (its ! (length its - 1 - k))) [0..<length its]"
  proof (rule find_cong [OF refl])
    fix x assume "x \<in> set [0..<length its]"
    then have x: "x < length its" by simp
    show "sel (js_nth its
               (js_rem (int (length its) - (1 + int x) + int (length its)) (int (length its))))
          = sel (its ! (length its - 1 - x))"
    proof -
      have b: "length its - 1 - x < length its" using x by simp
      show ?thesis
        unfolding arrowUp_index_from_end [OF x] js_nth_int [OF b] by (rule refl)
    qed
  qed
  show ?thesis
  proof (cases "find (\<lambda>k. sel (its ! (length its - 1 - k))) [0..<length its]")
    case None
    then show ?thesis
      unfolding arrowUp_loop_find first_selectable_def rev_upt_map find_map_comp F
      by simp
  next
    case (Some k)
    then have "k < length its" using find_in_set [OF Some] by simp
    then show ?thesis
      unfolding arrowUp_loop_find first_selectable_def rev_upt_map find_map_comp F Some
      by (simp only: option.case option.map arrowUp_index_from_end)
  qed
qed

lemma last_selectable_is_last:
  assumes "first_selectable sel its (rev [0..<length its]) = Some j"
  shows "j < length its \<and> sel (its ! j) \<and> (\<forall>m. j < m \<and> m < length its \<longrightarrow> \<not> sel (its ! m))"
proof -
  from assms obtain i where i: "i < length its" "sel (its ! (length its - 1 - i))"
    "j = length its - 1 - i" "\<forall>k<i. \<not> sel (its ! (length its - 1 - k))"
    unfolding first_selectable_def rev_upt_map find_map_comp
    by (auto simp: find_Some_iff)
  have "\<not> sel (its ! m)" if "j < m" "m < length its" for m
  proof -
    have "length its - 1 - m < i" using that i by linarith
    from i(4)[rule_format, OF this] show ?thesis using that by simp
  qed
  with i show ?thesis by auto
qed

text \<open>
  C10. ArrowUp with no highlight: the new highlight is the last selectable item of the view
  (the first selectable one in the order last, \<dots>, first; no selectable item stands after
  it), and \<open>isOpen\<close> becomes true. When no item is selectable nothing changes but the store
  and the trace, which gains only \<^verbatim>\<open>event.preventDefault()\<close>; so it is, with or without a
  highlight, when the view is empty.
\<close>

theorem arrowUp_without_highlight:
  assumes "key event = Key_ArrowUp"
  shows "(let view = filteredView p (heap w);
              unchanged = w\<lparr>heap := fst (getFilteredItems p (heap w)),
                            effects := effects w @ [PreventDefault]\<rparr>;
              w' = react_event (handleKeyDown p event) w
          in (view = [] \<longrightarrow> w' = unchanged)
             \<and> (highlightedIndex w = None \<longrightarrow>
                  (case first_selectable (isItemSelectable p) view (rev [0..<length view]) of
                     None \<Rightarrow> w' = unchanged
                   | Some j \<Rightarrow>
                       j < length view \<and> isItemSelectable p (view ! j)
                       \<and> (\<forall>m. j < m \<and> m < length view \<longrightarrow> \<not> isItemSelectable p (view ! m))
                       \<and> highlightedIndex w' = Some (int j) \<and> isOpen w' = True)))"
proof -
  define view where "view = filteredView p (heap w)"
  obtain hp r where g: "getFilteredItems p (heap w) = (hp, r)"
    by (cases "getFilteredItems p (heap w)")
  have v: "deref hp r = view"
    using g by (simp add: view_def filteredView_def)
  note loop = arrowUp_loop_last_selectable [of "isItemSelectable p" view]
  have e: "view = [] \<Longrightarrow> react_event (handleKeyDown p event) w
             = w\<lparr>heap := fst (getFilteredItems p (heap w)), effects := effects w @ [PreventDefault]\<rparr>"
    using assms
    by (simp add: Let_def handleKeyDown_def keyDownHandlers_ArrowUp_def g v event_defs)
  have n: "highlightedIndex w = None \<Longrightarrow>
      (case first_selectable (isItemSelectable p) view (rev [0..<length view]) of
                     None \<Rightarrow> react_event (handleKeyDown p event) w
             = w\<lparr>heap := fst (getFilteredItems p (heap w)), effects := effects w @ [PreventDefault]\<rparr>
                   | Some j \<Rightarrow>
                       j < length view \<and> isItemSelectable p (view ! j)
                       \<and> (\<forall>m. j < m \<and> m < length view \<longrightarrow> \<not> isItemSelectable p (view ! m))
                       \<and> highlightedIndex (react_event (handleKeyDown p event) w) = Some (int j)
                       \<and> isOpen (react_event (handleKeyDown p event) w) = True)"
  proof (cases "first_selectable (isItemSelectable p) view (rev [0..<length view])")
    case None
    assume "highlightedIndex w = None"
    with None assms show ?thesis
      by (simp add: Let_def handleKeyDown_def keyDownHandlers_ArrowUp_def g v event_defs loop)
  next
    case (Some j)
    assume hn: "highlightedIndex w = None"
    note l = last_selectable_is_last [OF Some]
    from l have "int j \<noteq> int (length view)" "view \<noteq> []" by auto
    with Some assms hn l show ?thesis
      by (simp add: Let_def handleKeyDown_def keyDownHandlers_ArrowUp_def g v event_defs loop)
  qed
  show ?thesis
    using e n by (simp add: Let_def view_def[symmetric])
qed


lemma picky_view:
  "filteredView picky_props fruit_heap = [JStr ''apple'', JStr ''banana'', JStr ''apricot'']"
  by (simp add: filteredView_def getFilteredItems_def picky_props_def defaultProps_def
      fruit_heap_def deref_def)

lemma picky_selectable: "isItemSelectable picky_props = skip_banana"
  by (simp add: picky_props_def)

lemma circular_order_3:
  "circular_order 3 0 = [0, 1, 2]" "circular_order 3 1 = [1, 2, 0]"
  "circular_order 3 3 = [0, 1, 2]"
  by (simp_all add: circular_order_map upt_rec)

lemma disabled_view:
  "filteredView disabled_props fruit_heap = [JStr ''apple'', JStr ''banana'', JStr ''apricot'']"
  "fst (getFilteredItems disabled_props fruit_heap) = fruit_heap"
  by (simp_all add: filteredView_def getFilteredItems_def disabled_props_def defaultProps_def
      fruit_heap_def deref_def)

lemma disabled_first_selectable:
  "first_selectable (isItemSelectable disabled_props) its order = None"
  by (simp add: first_selectable_def disabled_props_def never_selectable_def find_None_iff)

theorem arrowDown_moves_highlight_witness:
  "key arrowDown_event = Key_ArrowDown
   \<and> highlightedIndex (menu_world fruit_heap (Some 0) False) = Some 0
   \<and> first_selectable (isItemSelectable picky_props)
         [JStr ''apple'', JStr ''banana'', JStr ''apricot''] [1, 2, 0] = Some 2
   \<and> highlightedIndex (react_event (handleKeyDown picky_props arrowDown_event)
         (menu_world fruit_heap (Some 0) False)) = Some 2
   \<and> isOpen (react_event (handleKeyDown picky_props arrowDown_event)
         (menu_world fruit_heap (Some 0) False)) = True
   \<and> react_event (handleKeyDown disabled_props arrowDown_event)
         (menu_world fruit_heap (Some 0) False)
       = (menu_world fruit_heap (Some 0) False)\<lparr>effects := [PreventDefault]\<rparr>"
proof -
  define W where "W = menu_world fruit_heap (Some 0) False"
  define V where "V = [JStr ''apple'', JStr ''banana'', JStr ''apricot'']"
  have k: "key arrowDown_event = Key_ArrowDown"
    by (simp add: arrowDown_event_def)
  have hi: "highlightedIndex W = Some 0"
    by (simp add: W_def menu_world_simps)
  have h: "case highlightedIndex W of None \<Rightarrow> True | Some h \<Rightarrow> 0 \<le> h"
    by (simp add: hi)
  have view: "filteredView picky_props (heap W) = V"
    by (simp add: W_def V_def menu_world_simps picky_view)
  have ord: "circular_order (length V)
      (case highlightedIndex W of None \<Rightarrow> 0 | Some h \<Rightarrow> nat (h + 1)) = [1, 2, 0]"
    by (simp add: hi V_def circular_order_map upt_rec)
  have f: "first_selectable (isItemSelectable picky_props) V [1, 2, 0] = Some 2"
    by (simp add: V_def first_selectable_def picky_selectable skip_banana_def)
  note t = arrowDown_moves_highlight [OF k h, of picky_props,
      unfolded Let_def view ord f option.case]
  have hw: "heap W = fruit_heap" "effects W = []"
    by (simp_all add: W_def menu_world_simps)
  have w: "W\<lparr>heap := fruit_heap\<rparr> = W"
    by (simp add: W_def menu_world_def initial_world_def)
  note u = arrowDown_moves_highlight [OF k h, of disabled_props,
      unfolded Let_def disabled_first_selectable option.case hw disabled_view]
  show ?thesis
    using t u k f hi w by (simp add: W_def[symmetric] V_def[symmetric])
qed

lemma arrowDown_wraps_example:
  "highlightedIndex (react_event (handleKeyDown picky_props arrowDown_event)
         (menu_world fruit_heap (Some 2) False)) = Some 0"
  by (simp add: handleKeyDown_def keyDownHandlers_ArrowDown_def arrowDown_event_def
      event_defs menu_world_def initial_world_def picky_props_def defaultProps_def
      getFilteredItems_def fruit_heap_def deref_def arrowDown_loop.simps js_rem_def js_nth_def
      skip_banana_def)

theorem arrowUp_without_highlight_witness:
  "key arrowUp_event = Key_ArrowUp
   \<and> highlightedIndex (menu_world fruit_heap None False) = None
   \<and> first_selectable (isItemSelectable picky_props)
         [JStr ''apple'', JStr ''banana'', JStr ''apricot''] [2, 1, 0] = Some 2
   \<and> highlightedIndex (react_event (handleKeyDown picky_props arrowUp_event)
         (menu_world fruit_heap None False)) = Some 2
   \<and> isOpen (react_event (handleKeyDown picky_props arrowUp_event)
         (menu_world fruit_heap None False)) = True
   \<and> react_event (handleKeyDown disabled_props arrowUp_event)
         (menu_world fruit_heap None False)
       = (menu_world fruit_heap None False)\<lparr>effects := [PreventDefault]\<rparr>"
proof -
  define W where "W = menu_world fruit_heap None False"
  define V where "V = [JStr ''apple'', JStr ''banana'', JStr ''apricot'']"
  have k: "key arrowUp_event = Key_ArrowUp"
    by (simp add: arrowUp_event_def)
  have hi: "highlightedIndex W = None"
    by (simp add: W_def menu_world_simps)
  have view: "filteredView picky_props (heap W) = V"
    by (simp add: W_def V_def menu_world_simps picky_view)
  have ord: "rev [0..<length V] = [2, 1, 0]"
    by (simp add: V_def upt_rec)
  have f: "first_selectable (isItemSelectable picky_props) V [2, 1, 0] = Some 2"
    by (simp add: V_def first_selectable_def picky_selectable skip_banana_def)
  note t = arrowUp_without_highlight [OF k, of picky_props W,
      unfolded Let_def view ord f option.case]
  have hw: "heap W = fruit_heap" "effects W = []"
    by (simp_all add: W_def menu_world_simps)
  have w: "W\<lparr>heap := fruit_heap\<rparr> = W"
    by (simp add: W_def menu_world_def initial_world_def)
  note u = arrowUp_without_highlight [OF k, of disabled_props W,
      unfolded Let_def disabled_first_selectable option.case hw disabled_view]
  show ?thesis
    using t u k f hi w by (simp add: W_def[symmetric] V_def[symmetric])
qed

section \<open>Auto-highlight\<close>

lemma indexOf_from_range: "indexOf_from s pat k = - 1 \<or> int k \<le> indexOf_from s pat k"
proof (induction s arbitrary: k)
  case Nil
  then show ?case by simp
next
  case (Cons c s)
  from Cons [of "Suc k"] show ?case by auto
qed

lemma indexOf_from_start: "indexOf_from s pat k = int k \<longleftrightarrow> prefix pat s"
proof (cases s)
  case Nil
  then show ?thesis by auto
next
  case (Cons c s')
  from indexOf_from_range [of s' pat "Suc k"] have "indexOf_from s' pat (Suc k) \<noteq> int k"
    by auto
  with Cons show ?thesis by simp
qed

lemma indexOf_0_iff_prefix: "indexOf s pat = 0 \<longleftrightarrow> prefix pat s"
  using indexOf_from_start [of s pat 0] by (simp add: indexOf_def)

lemma upt_0_Suc_shift: "[0..<Suc m] = 0 # map Suc [0..<m]"
  by (simp add: upt_conv_Cons map_Suc_upt del: upt_Suc)

lemma autoComplete_loop_find:
  assumes "0 \<le> index" and "index < int (length its)" and "i \<le> length its"
  shows "autoComplete_loop sel its index i =
     (case find (\<lambda>k. sel (its ! ((nat index + k) mod length its))) [0..<length its - i] of
        None \<Rightarrow> int ((nat index + (length its - i)) mod length its)
      | Some k \<Rightarrow> int ((nat index + k) mod length its))"
  using assms
proof (induction sel its index i rule: autoComplete_loop.induct)
  case (1 sel its index i)
  note prems = "1.prems"
  have n: "0 < length its" using prems by auto
  show ?case
  proof (cases "i < length its")
    case False
    with prems have "i = length its" by simp
    then show ?thesis
      using prems by (subst autoComplete_loop.simps) simp
  next
    case True
    then obtain m where m: "length its - i = Suc m"
      by (cases "length its - i") auto
    have here: "js_nth its index = its ! nat index"
      using prems by (simp add: js_nth_def)
    have mod0: "nat index mod length its = nat index"
      using prems by simp
    show ?thesis
    proof (cases "sel (its ! nat index)")
      case sel: True
      show ?thesis
        using True sel prems(1)
        by (subst autoComplete_loop.simps) (simp add: here m upt_0_Suc_shift mod0 del: upt_Suc)
    next
      case nsel: False
      define index' where "index' = js_rem (index + 1) (int (length its))"
      have i': "index' = (index + 1) mod int (length its)"
        using prems n by (simp add: index'_def js_rem_nonneg)
      then have r: "0 \<le> index'" "index' < int (length its)"
        using n by simp_all
      have ni': "nat index' = (nat index + 1) mod length its"
        using prems i' by (simp add: nat_mod_distrib nat_add_distrib)
      have shift: "(nat index' + k) mod length its = (nat index + Suc k) mod length its" for k
        unfolding ni' by (simp add: mod_add_left_eq)
      have m': "length its - (i + 1) = m" using m by simp
      have "autoComplete_loop sel its index i = autoComplete_loop sel its index' (i + 1)"
        using True nsel here by (subst autoComplete_loop.simps) (simp add: index'_def)
      also have "\<dots> =
        (case find (\<lambda>k. sel (its ! ((nat index' + k) mod length its))) [0..<length its - (i + 1)] of
           None \<Rightarrow> int ((nat index' + (length its - (i + 1))) mod length its)
         | Some k \<Rightarrow> int ((nat index' + k) mod length its))"
        unfolding index'_def
        by (rule "1.IH") (use True nsel here r[unfolded index'_def] in simp_all)
      finally have lhs: "autoComplete_loop sel its index i =
        (case find (\<lambda>k. sel (its ! ((nat index + Suc k) mod length its))) [0..<m] of
           None \<Rightarrow> int ((nat index + Suc m) mod length its)
         | Some k \<Rightarrow> int ((nat index + Suc k) mod length its))"
        unfolding m' shift .
      have rhs: "find (\<lambda>k. sel (its ! ((nat index + k) mod length its))) [0..<Suc m]
          = map_option Suc
              (find (\<lambda>k. sel (its ! ((nat index + Suc k) mod length its))) [0..<m])"
        using nsel by (simp add: upt_0_Suc_shift find_map_comp mod0 del: upt_Suc)
      show ?thesis
        unfolding m lhs rhs
        by (cases "find (\<lambda>k. sel (its ! ((nat index + Suc k) mod length its))) [0..<m]")
          simp_all
    qed
  qed
qed


lemma autoComplete_loop_first_selectable:
  assumes "0 \<le> index" and "index < int (length its)"
  shows "autoComplete_loop sel its index 0 =
     (case first_selectable sel its (circular_order (length its) (nat index)) of
        None \<Rightarrow> index
      | Some j \<Rightarrow> int j)"
  using assms
  unfolding autoComplete_loop_find [OF assms le0] first_selectable_def circular_order_map
    find_map_comp
  by (simp split: option.splits)

lemma first_selectable_None:
  assumes "first_selectable sel its order = None" and "j \<in> set order"
  shows "\<not> sel (its ! j)"
  using assms unfolding first_selectable_def by (auto simp: find_None_iff)

text \<open>
  What \<^verbatim>\<open>maybeAutoCompleteText\<close> computes, run as React runs a queued updater, for a
  highlight that is absent or an index into the view, and whatever \<open>toLowerCase\<close> is. It
  starts at the highlight (at position 0 when there is none) and takes the first selectable
  item in circular order from there. The test \<^verbatim>\<open>items[index] && ...\<close> then lets only a truthy
  item through: the item becomes the highlight when the text value is not empty, the item
  is truthy, and the lower-cased text is a prefix of the item's lower-cased display value;
  in every other case the highlight is cleared. The trace stays as it is, so no callback
  is called.
\<close>

lemma maybeAutoCompleteText_computes:
  assumes "case highlightedIndex w of
             None \<Rightarrow> True
           | Some h \<Rightarrow> 0 \<le> h \<and> h < int (length (filteredView p (heap w)))"
  shows "(let view = filteredView p (heap w);
              start = (case highlightedIndex w of None \<Rightarrow> 0 | Some h \<Rightarrow> nat h);
              w' = react_event (setState (maybeAutoCompleteText toLowerCase p) []) w
          in w' = w\<lparr>heap := fst (getFilteredItems p (heap w)),
                    highlightedIndex :=
                      (case first_selectable (isItemSelectable p) view
                              (circular_order (length view) start) of
                         None \<Rightarrow> None
                       | Some j \<Rightarrow>
                           if value p \<noteq> [] \<and> truthy (view ! j)
                              \<and> prefix (toLowerCase (value p))
                                    (toLowerCase (getItemValue p (view ! j)))
                           then Some (int j) else None)\<rparr>
             \<and> effects w' = effects w)"
proof -
  define view where "view = filteredView p (heap w)"
  define index0 where "index0 = (case highlightedIndex w of None \<Rightarrow> 0 | Some k \<Rightarrow> k)"
  define start where "start = (case highlightedIndex w of None \<Rightarrow> 0 | Some h \<Rightarrow> nat h)"
  obtain hp r where g: "getFilteredItems p (heap w) = (hp, r)"
    by (cases "getFilteredItems p (heap w)")
  have v: "deref hp r = view"
    using g by (simp add: view_def filteredView_def)
  have st: "start = nat index0" and i0: "0 \<le> index0"
    using assms by (auto simp: start_def index0_def split: option.splits)
  define index where "index = autoComplete_loop (isItemSelectable p) view index0 0"
  define hi' where "hi' =
     (if value p \<noteq> [] \<and> truthy (js_nth view index) \<and> isItemSelectable p (js_nth view index)
         \<and> prefix (toLowerCase (value p)) (toLowerCase (getItemValue p (js_nth view index)))
      then Some index else None)"
  have run: "react_event (setState (maybeAutoCompleteText toLowerCase p) []) w
               = w\<lparr>heap := hp, highlightedIndex := hi'\<rparr>"
    by (auto simp: maybeAutoCompleteText_def event_defs Let_def g v index0_def[symmetric]
        index_def[symmetric] hi'_def indexOf_0_iff_prefix)
  have hi: "hi' =
     (case first_selectable (isItemSelectable p) view (circular_order (length view) start) of
        None \<Rightarrow> None
      | Some j \<Rightarrow>
          if value p \<noteq> [] \<and> truthy (view ! j)
             \<and> prefix (toLowerCase (value p)) (toLowerCase (getItemValue p (view ! j)))
          then Some (int j) else None)"
  proof (cases "view = []")
    case True
    then show ?thesis
      by (auto simp: hi'_def js_nth_def first_selectable_def circular_order_def)
  next
    case False
    with assms have r: "index0 < int (length view)"
      by (auto simp: index0_def view_def split: option.splits)
    note loop = autoComplete_loop_first_selectable [OF i0 r, of "isItemSelectable p",
        folded index_def st]
    show ?thesis
    proof (cases "first_selectable (isItemSelectable p) view (circular_order (length view) start)")
      case None
      have "nat index0 \<in> set (circular_order (length view) start)"
        using i0 r by (simp add: set_circular_order)
      from first_selectable_None [OF None this] have "\<not> isItemSelectable p (js_nth view index0)"
        using i0 r by (simp add: js_nth_def)
      then show ?thesis
        using None by (simp add: loop hi'_def)
    next
      case (Some j)
      from first_selectable_Some [OF Some] have j: "j < length view" "isItemSelectable p (view ! j)"
        by (simp_all add: set_circular_order)
      then show ?thesis
        using Some by (simp add: loop hi'_def js_nth_int)
    qed
  qed
  show ?thesis
    unfolding Let_def view_def[symmetric] start_def[symmetric] run hi[symmetric]
    using g by simp
qed


lemma fruit_view_Ap:
  "filteredView typed_Ap_props fruit_heap = [JStr ''apple'', JStr ''banana'', JStr ''apricot'']"
  by (simp add: filteredView_def getFilteredItems_def typed_Ap_props_def defaultProps_def
      fruit_heap_def deref_def)

lemma maybeAutoCompleteText_examples:
  "highlightedIndex (initial_world fruit_heap) = None
   \<and> value typed_Ap_props = ''Ap''
   \<and> filteredView typed_Ap_props fruit_heap ! 0 = JStr ''apple''
   \<and> highlightedIndex
         (react_event (setState (maybeAutoCompleteText toLowerCase_ascii typed_Ap_props) [])
            (initial_world fruit_heap)) = Some 0
   \<and> effects
         (react_event (setState (maybeAutoCompleteText toLowerCase_ascii typed_Ap_props) [])
            (initial_world fruit_heap)) = []
   \<and> value fruit_props = []
   \<and> highlightedIndex
         (react_event (setState (maybeAutoCompleteText toLowerCase_ascii fruit_props) [])
            (initial_world fruit_heap)) = None"
proof -
  define W where "W = initial_world fruit_heap"
  define V where "V = [JStr ''apple'', JStr ''banana'', JStr ''apricot'']"
  have hi: "highlightedIndex W = None" and e: "effects W = []" and hp: "heap W = fruit_heap"
    by (simp_all add: W_def initial_world_def)
  have h: "case highlightedIndex W of None \<Rightarrow> True
           | Some h \<Rightarrow> 0 \<le> h \<and> h < int (length (filteredView typed_Ap_props (heap W)))"
    by (simp add: hi)
  have view: "filteredView typed_Ap_props (heap W) = V"
    by (simp add: hp V_def fruit_view_Ap)
  have ord: "circular_order (length V)
      (case highlightedIndex W of None \<Rightarrow> 0 | Some h \<Rightarrow> nat h) = [0, 1, 2]"
    by (simp add: hi V_def circular_order_map upt_rec)
  have f: "first_selectable (isItemSelectable typed_Ap_props) V [0, 1, 2] = Some 0"
    by (simp add: V_def first_selectable_def typed_Ap_props_def defaultProps_def)
  have m: "value typed_Ap_props \<noteq> [] \<and> truthy (V ! 0)
           \<and> prefix (toLowerCase_ascii (value typed_Ap_props))
                 (toLowerCase_ascii (getItemValue typed_Ap_props (V ! 0)))"
    by (simp add: V_def typed_Ap_props_def defaultProps_def itemString_def toLowerCase_ascii_def
        toLowerCase_ascii_char_def)
  note t = maybeAutoCompleteText_computes [OF h, unfolded Let_def view ord f option.case]
  have "highlightedIndex
          (react_event (setState (maybeAutoCompleteText toLowerCase_ascii typed_Ap_props) []) W)
          = Some 0"
    and "effects
          (react_event (setState (maybeAutoCompleteText toLowerCase_ascii typed_Ap_props) []) W)
          = []"
    using t m e by simp_all
  moreover have "value typed_Ap_props = ''Ap''"
    by (simp add: typed_Ap_props_def)
  moreover have "filteredView typed_Ap_props fruit_heap ! 0 = JStr ''apple''"
    by (simp add: fruit_view_Ap)
  moreover have e: "value fruit_props = []"
    by (simp add: fruit_props_def defaultProps_def)
  moreover have "highlightedIndex
          (react_event (setState (maybeAutoCompleteText toLowerCase_ascii fruit_props) []) W)
          = None"
    using maybeAutoCompleteText_computes [where p = fruit_props and w = W] hi e
    by (simp add: Let_def split: option.splits)
  ultimately show ?thesis
    using hi by (simp add: W_def)
qed

lemma zero_view: "filteredView typed_0_props zero_heap = [JNum 0, JNum 1]"
  by (simp add: filteredView_def getFilteredItems_def typed_0_props_def defaultProps_def
      zero_heap_def deref_def)

text \<open>
  C6. The claim fails on the code for an item that is a falsy JavaScript value. With the
  items \<open>[0, 1]\<close>, shown by their digits, the typed value \<open>0\<close> and no highlight, the first
  selectable item is the number 0, the text is not empty and, lower-cased by whatever \<open>toLowerCase\<close>
  is, is a prefix of the item's lower-cased display value; the claim has the item
  highlighted. The code clears the highlight: the presence test \<^verbatim>\<open>items[index] && ...\<close>
  takes the item 0 for a missing one.
\<close>

theorem falsy_item_is_never_autoHighlighted:
  "value typed_0_props = ''0''
   \<and> filteredView typed_0_props (heap (initial_world zero_heap)) = [JNum 0, JNum 1]
   \<and> highlightedIndex (initial_world zero_heap) = None
   \<and> first_selectable (isItemSelectable typed_0_props) [JNum 0, JNum 1] (circular_order 2 0)
       = Some 0
   \<and> getItemValue typed_0_props (JNum 0) = ''0''
   \<and> prefix (toLowerCase ''0'') (toLowerCase ''0'')
   \<and> highlightedIndex
         (react_event (setState (maybeAutoCompleteText toLowerCase typed_0_props) [])
            (initial_world zero_heap)) = None"
proof -
  have "highlightedIndex
         (react_event (setState (maybeAutoCompleteText toLowerCase typed_0_props) [])
            (initial_world zero_heap)) = None"
    by (simp add: maybeAutoCompleteText_def event_defs initial_world_def typed_0_props_def
        defaultProps_def getFilteredItems_def zero_heap_def deref_def autoComplete_loop.simps
        js_nth_def Let_def)
  moreover have "first_selectable (isItemSelectable typed_0_props) [JNum 0, JNum 1]
      (circular_order 2 0) = Some 0"
    by (simp add: first_selectable_def circular_order_map upt_rec typed_0_props_def
        defaultProps_def)
  moreover have "value typed_0_props = ''0''"
    and "getItemValue typed_0_props (JNum 0) = ''0''"
    by (simp_all add: typed_0_props_def defaultProps_def itemString_def)
  moreover have "filteredView typed_0_props (heap (initial_world zero_heap)) = [JNum 0, JNum 1]"
    and "highlightedIndex (initial_world zero_heap) = None"
    by (simp_all add: zero_view initial_world_def)
  ultimately show ?thesis by simp
qed

text \<open>
  So it is when the text arrives with new props and \<^verbatim>\<open>componentWillReceiveProps\<close> queues the
  recomputation.
\<close>

lemma falsy_item_when_the_text_arrives:
  "highlightedIndex
     (react_event (componentWillReceiveProps toLowerCase fruit_props typed_0_props)
        (initial_world zero_heap)) = None"
  by (simp add: componentWillReceiveProps_def maybeAutoCompleteText_def event_defs
      initial_world_def typed_0_props_def fruit_props_def defaultProps_def
      getFilteredItems_def zero_heap_def deref_def autoComplete_loop.simps js_nth_def Let_def)

text \<open>
  The other paths take the same item for the item it is: ArrowDown highlights it, Enter
  and a click select it, each calling \<^verbatim>\<open>onSelect\<close> with its display value.
\<close>

lemma falsy_item_on_the_other_paths:
  "highlightedIndex (react_event (handleKeyDown typed_0_props arrowDown_event)
       (initial_world zero_heap)) = Some 0"
  "onSelect_calls (effects (react_event (handleKeyDown typed_0_props enter_event)
       (menu_world zero_heap (Some 0) False))) = [(''0'', JNum 0)]"
  "onSelect_calls (effects (fire (item_onClick typed_0_props (JNum 0))
       (menu_world zero_heap (Some 0) False))) = [(''0'', JNum 0)]"
  by (simp_all add: handleKeyDown_def keyDownHandlers_ArrowDown_def keyDownHandlers_Enter_def
      arrowDown_event_def enter_event_def fire_def item_onClick_def selectItemFromMouse_def
      event_defs this_isOpen_def menu_world_def initial_world_def typed_0_props_def
      defaultProps_def getFilteredItems_def zero_heap_def deref_def arrowDown_loop.simps
      js_rem_def js_nth_def itemString_def Let_def)

section \<open>The highlighted index in the states the component reaches\<close>

lemma items_allocated_after:
  "items p < length h \<Longrightarrow> items p < length (fst (getFilteredItems p h))"
  by (simp add: getFilteredItems_def array_filter_def array_sort_def split: option.splits)

lemma length_view_after:
  "items p < length h \<Longrightarrow>
   length (filteredView p (fst (getFilteredItems p h))) = length (filteredView p h)"
  by (simp add: filteredView_def getFilteredItems_def array_filter_def array_sort_def deref_def
      nth_append length_js_sort split: option.splits)


lemma arrowDown_loop_range:
  assumes "- 1 \<le> h"
  shows "arrowDown_loop sel its h 0 = h
         \<or> (0 \<le> arrowDown_loop sel its h 0 \<and> arrowDown_loop sel its h 0 < int (length its))"
proof (cases "first_selectable sel its (circular_order (length its) (nat (h + 1)))")
  case None
  then show ?thesis by (simp add: arrowDown_loop_first_selectable [OF assms])
next
  case (Some j)
  from first_selectable_Some [OF Some] have "j < length its"
    by (simp add: set_circular_order)
  then show ?thesis
    using Some by (simp add: arrowDown_loop_first_selectable [OF assms])
qed

lemma arrowUp_loop_range:
  assumes "0 \<le> h"
  shows "arrowUp_loop sel its h 0 = h
         \<or> (0 \<le> arrowUp_loop sel its h 0 \<and> arrowUp_loop sel its h 0 < int (length its))"
proof (cases "find (\<lambda>k. sel (js_nth its
               (js_rem (h - (1 + int k) + int (length its)) (int (length its)))))
             [0..<length its]")
  case None
  then show ?thesis by (simp add: arrowUp_loop_find)
next
  case (Some k)
  from find_in_set [OF Some] have k: "k < length its" by simp
  define a where "a = h - (1 + int k) + int (length its)"
  have n: "0 < int (length its)" using k by auto
  have "0 \<le> a" using assms k unfolding a_def by linarith
  then have "js_rem a (int (length its)) = a mod int (length its)"
    using n by (rule js_rem_nonneg)
  moreover have "0 \<le> a mod int (length its)" "a mod int (length its) < int (length its)"
    using n by (simp_all only: pos_mod_sign pos_mod_bound)
  moreover have "arrowUp_loop sel its h 0 = js_rem a (int (length its))"
    unfolding arrowUp_loop_find Some a_def by simp
  ultimately show ?thesis by simp
qed

lemma inv_step:
  assumes "items p < length (heap w)" and "highlight_valid p w"
    and "heap w' = heap w \<or> heap w' = fst (getFilteredItems p (heap w))"
    and "highlightedIndex w' = None \<or> highlightedIndex w' = highlightedIndex w
         \<or> (\<exists>i. highlightedIndex w' = Some i \<and> 0 \<le> i
                  \<and> i < int (length (filteredView p (heap w))))"
  shows "items p < length (heap w') \<and> highlight_valid p w'"
proof -
  have l: "length (filteredView p (heap w')) = length (filteredView p (heap w))"
    using assms(1,3) by (auto simp: length_view_after)
  have a: "items p < length (heap w')"
    using assms(1,3) by (auto simp: items_allocated_after)
  show ?thesis
    using assms(2,4) a by (auto simp: highlight_valid_def l split: option.splits)
qed

lemma heap_react_event: "heap (react_event f w) = heap (f (world.extend w \<lparr>callbacks = []\<rparr>))"
  by (simp add: react_event_def Let_def world.truncate_def)

lemma highlightedIndex_react_event:
  "highlightedIndex (react_event f w)
     = highlightedIndex (f (world.extend w \<lparr>callbacks = []\<rparr>))"
  by (simp add: react_event_def Let_def world.truncate_def)

lemma extend_simps:
  "heap (world.extend w e) = heap w" "highlightedIndex (world.extend w e) = highlightedIndex w"
  "isOpen (world.extend w e) = isOpen w"
  by (simp_all add: world.extend_def)

lemma highlight_valid_extend [simp]:
  "highlight_valid p (world.extend w e) = highlight_valid p w"
  by (auto simp: highlight_valid_def extend_simps split: option.splits)

lemma inv_event:
  assumes "items p < length (heap w)" and "highlight_valid p w"
    and "\<And>v :: handling. heap (f v) = heap v \<or> heap (f v) = fst (getFilteredItems p (heap v))"
    and "\<And>v :: handling. highlight_valid p v \<Longrightarrow>
           highlightedIndex (f v) = None \<or> highlightedIndex (f v) = highlightedIndex v
           \<or> (\<exists>i. highlightedIndex (f v) = Some i \<and> 0 \<le> i
                  \<and> i < int (length (filteredView p (heap v))))"
  shows "items p < length (heap (react_event f w)) \<and> highlight_valid p (react_event f w)"
proof (rule inv_step [OF assms(1,2)])
  show "heap (react_event f w) = heap w \<or>
    heap (react_event f w) = fst (getFilteredItems p (heap w))"
    using assms(3) [of "world.extend w \<lparr>callbacks = []\<rparr>"]
    by (simp add: heap_react_event extend_simps)
  show "highlightedIndex (react_event f w) = None \<or>
    highlightedIndex (react_event f w) = highlightedIndex w \<or>
    (\<exists>i. highlightedIndex (react_event f w) = Some i \<and>
         0 \<le> i \<and> i < int (length (filteredView p (heap w))))"
    using assms(4) [of "world.extend w \<lparr>callbacks = []\<rparr>"] assms(2)
    by (simp add: highlightedIndex_react_event extend_simps)
qed

lemma heap_handleKeyDown:
  "heap (handleKeyDown p event v) = heap v
   \<or> heap (handleKeyDown p event v) = fst (getFilteredItems p (heap v))"
  by (cases "key event")
    (auto simp: handleKeyDown_def keyDownHandlers_ArrowDown_def keyDownHandlers_ArrowUp_def
      keyDownHandlers_Enter_def keyDownHandlers_Escape_def keyDownHandlers_Tab_def
      setState_def setIgnoreBlur_def Let_def split: prod.splits option.splits)


lemma view_of_getFilteredItems:
  "getFilteredItems p h = (h', r) \<Longrightarrow> deref h' r = filteredView p h"
  by (simp add: filteredView_def)

lemma highlightedIndex_ArrowDown:
  assumes "highlight_valid p v"
  shows "highlightedIndex (keyDownHandlers_ArrowDown p v) = highlightedIndex v
         \<or> (\<exists>i. highlightedIndex (keyDownHandlers_ArrowDown p v) = Some i \<and> 0 \<le> i
                  \<and> i < int (length (filteredView p (heap v))))"
proof -
  define h where "h = (case highlightedIndex v of None \<Rightarrow> - 1 | Some k \<Rightarrow> k)"
  have h: "- 1 \<le> h"
    using assms by (auto simp: h_def highlight_valid_def split: option.splits)
  obtain hp r where g: "getFilteredItems p (heap v) = (hp, r)"
    by (cases "getFilteredItems p (heap v)")
  note range = arrowDown_loop_range [OF h, of "isItemSelectable p" "filteredView p (heap v)"]
  have hh: "(h = - 1 \<and> highlightedIndex v = None) \<or> highlightedIndex v = Some h"
    by (simp add: h_def split: option.splits)
  show ?thesis
    using range hh
    by (auto simp: keyDownHandlers_ArrowDown_def Let_def g view_of_getFilteredItems [OF g]
        h_def[symmetric] setState_def)
qed

lemma highlightedIndex_ArrowUp:
  assumes "highlight_valid p v"
  shows "highlightedIndex (keyDownHandlers_ArrowUp p v) = highlightedIndex v
         \<or> (\<exists>i. highlightedIndex (keyDownHandlers_ArrowUp p v) = Some i \<and> 0 \<le> i
                  \<and> i < int (length (filteredView p (heap v))))"
proof -
  define h where "h = (case highlightedIndex v of
                         None \<Rightarrow> int (length (filteredView p (heap v))) | Some k \<Rightarrow> k)"
  have h: "0 \<le> h"
    using assms by (auto simp: h_def highlight_valid_def split: option.splits)
  obtain hp r where g: "getFilteredItems p (heap v) = (hp, r)"
    by (cases "getFilteredItems p (heap v)")
  note range = arrowUp_loop_range [OF h, of "isItemSelectable p" "filteredView p (heap v)"]
  have hh: "(h = int (length (filteredView p (heap v))) \<and> highlightedIndex v = None)
            \<or> highlightedIndex v = Some h"
    by (simp add: h_def split: option.splits)
  show ?thesis
    using range hh
    by (auto simp: keyDownHandlers_ArrowUp_def Let_def g view_of_getFilteredItems [OF g]
        h_def[symmetric] setState_def)
qed

lemma highlightedIndex_handleKeyDown:
  assumes "highlight_valid p v"
  shows "highlightedIndex (handleKeyDown p event v) = None
         \<or> highlightedIndex (handleKeyDown p event v) = highlightedIndex v
         \<or> (\<exists>i. highlightedIndex (handleKeyDown p event v) = Some i \<and> 0 \<le> i
                  \<and> i < int (length (filteredView p (heap v))))"
proof (cases "key event")
  case Key_ArrowDown
  then show ?thesis
    using highlightedIndex_ArrowDown [OF assms] by (simp add: handleKeyDown_def)
next
  case Key_ArrowUp
  then show ?thesis
    using highlightedIndex_ArrowUp [OF assms] by (simp add: handleKeyDown_def)
next
  case Key_Enter
  then show ?thesis
    by (auto simp: handleKeyDown_def keyDownHandlers_Enter_def setState_def setIgnoreBlur_def
        Let_def split: option.splits prod.splits)
next
  case Key_Escape
  then show ?thesis
    by (simp add: handleKeyDown_def keyDownHandlers_Escape_def setState_def setIgnoreBlur_def)
next
  case Key_Tab
  then show ?thesis
    by (simp add: handleKeyDown_def keyDownHandlers_Tab_def setIgnoreBlur_def)
next
  case (Key_Other k)
  then show ?thesis
    by (simp add: handleKeyDown_def setState_def)
qed

lemma highlightedIndex_maybeAutoCompleteText:
  "highlightedIndex (maybeAutoCompleteText toLowerCase p v) = None
   \<or> (\<exists>i. highlightedIndex (maybeAutoCompleteText toLowerCase p v) = Some i \<and> 0 \<le> i
            \<and> i < int (length (filteredView p (heap v))))"
proof -
  obtain hp r where g: "getFilteredItems p (heap v) = (hp, r)"
    by (cases "getFilteredItems p (heap v)")
  have t: "truthy (js_nth xs i) \<Longrightarrow> 0 \<le> i \<and> i < int (length xs)" for xs i
    by (auto simp: js_nth_def split: if_splits)
  show ?thesis
    by (auto simp: maybeAutoCompleteText_def Let_def g view_of_getFilteredItems [OF g] dest: t)
qed

lemma heap_maybeAutoCompleteText:
  "heap (maybeAutoCompleteText toLowerCase p v) = fst (getFilteredItems p (heap v))"
  by (simp add: maybeAutoCompleteText_def Let_def split: prod.splits)

lemma heap_ensureHighlightedIndex:
  "heap (ensureHighlightedIndex p v) = fst (getFilteredItems p (heap v))"
  by (simp add: ensureHighlightedIndex_def Let_def split: prod.splits)

lemma highlightedIndex_ensureHighlightedIndex:
  "highlightedIndex (ensureHighlightedIndex p v) =
     (case highlightedIndex v of
        None \<Rightarrow> None
      | Some k \<Rightarrow> if int (length (filteredView p (heap v))) \<le> k then None else Some k)"
  by (auto simp: ensureHighlightedIndex_def Let_def view_of_getFilteredItems
      split: prod.splits option.splits)


lemma setState_simps:
  "heap (setState u c v) = heap (u v)"
  "highlightedIndex (setState u c v) = highlightedIndex (u v)"
  by (simp_all add: setState_def)

lemma inv_receiveProps:
  assumes "items p' < length h'"
    and "case highlightedIndex w of None \<Rightarrow> True | Some k \<Rightarrow> 0 \<le> k"
  shows "items p' < length (heap (react_event (componentWillReceiveProps toLowerCase p p') (w\<lparr>heap := h'\<rparr>)))
         \<and> highlight_valid p' (react_event (componentWillReceiveProps toLowerCase p p') (w\<lparr>heap := h'\<rparr>))"
proof -
  define v0 :: handling where "v0 = world.extend (w\<lparr>heap := h'\<rparr>) \<lparr>callbacks = []\<rparr>"
  define v1 where "v1 = (if highlightedIndex v0 \<noteq> None
                          then setState (ensureHighlightedIndex p') [] v0 else v0)"
  define v2 where "v2 = (if autoHighlight p'
                            \<and> (value p \<noteq> value p' \<or> highlightedIndex v0 = None)
                          then setState (maybeAutoCompleteText toLowerCase p') [] v1 else v1)"
  have v0: "heap v0 = h'" "highlightedIndex v0 = highlightedIndex w"
    by (simp_all add: v0_def world.extend_def)
  have run: "componentWillReceiveProps toLowerCase p p' v0 = v2"
    by (auto simp: componentWillReceiveProps_def v2_def v1_def Let_def)
  have h1: "heap v1 = h' \<or> heap v1 = fst (getFilteredItems p' h')"
    by (simp add: v1_def v0 setState_simps heap_ensureHighlightedIndex)
  then have a1: "items p' < length (heap v1)"
    using assms(1) by (auto simp: items_allocated_after)
  have l1: "length (filteredView p' (heap v1)) = length (filteredView p' h')"
    using h1 assms(1) by (auto simp: length_view_after)
  have hi1: "highlightedIndex v1 =
      (case highlightedIndex w of
         None \<Rightarrow> None
       | Some k \<Rightarrow> if int (length (filteredView p' h')) \<le> k then None else Some k)"
    by (auto simp: v1_def v0 setState_simps highlightedIndex_ensureHighlightedIndex
        split: option.splits)
  have i1: "highlight_valid p' v1"
    unfolding highlight_valid_def l1 hi1 using assms(2) by (auto split: option.splits)
  have "items p' < length (heap v2) \<and> highlight_valid p' v2"
  proof (rule inv_step [OF a1 i1])
    show "heap v2 = heap v1 \<or> heap v2 = fst (getFilteredItems p' (heap v1))"
      by (simp add: v2_def setState_simps heap_maybeAutoCompleteText)
    show "highlightedIndex v2 = None \<or> highlightedIndex v2 = highlightedIndex v1 \<or>
      (\<exists>i. highlightedIndex v2 = Some i \<and> 0 \<le> i
           \<and> i < int (length (filteredView p' (heap v1))))"
      using highlightedIndex_maybeAutoCompleteText [of toLowerCase p' v1]
      by (auto simp: v2_def setState_simps)
  qed
  then show ?thesis
    unfolding highlight_valid_def heap_react_event highlightedIndex_react_event
      v0_def[symmetric] run .
qed

lemma highlight_valid_nonneg:
  "highlight_valid p w \<Longrightarrow> case highlightedIndex w of None \<Rightarrow> True | Some k \<Rightarrow> 0 \<le> k"
  by (auto simp: highlight_valid_def split: option.splits)

lemma reachable_invariant:
  assumes "reachable toLowerCase p w"
  shows "items p < length (heap w) \<and> highlight_valid p w"
  using assms
proof (induction rule: reachable.induct)
  case (mount p h)
  then show ?case by (simp add: initial_world_def highlight_valid_def)
next
  case (receiveProps p w p' h')
  then have "highlight_valid p w" by simp
  then have "case highlightedIndex w of None \<Rightarrow> True | Some k \<Rightarrow> 0 \<le> k"
    by (rule highlight_valid_nonneg)
  with receiveProps.hyps(2) show ?case
    by (rule inv_receiveProps)
next
  case (rerender p w)
  then show ?case
    by (intro inv_step [of p w]) (simp_all add: render_def)
next
  case (keyDown p w event)
  then show ?case
    by (intro inv_event heap_handleKeyDown highlightedIndex_handleKeyDown) simp_all
next
  case (change p w v)
  then show ?case
    by (intro inv_event) (simp_all add: handleChange_def)
next
  case (blur p w scroll)
  then show ?case
    by (intro inv_event)
      (auto simp: handleInputBlur_def setState_def Let_def split: option.splits prod.splits)
next
  case (focus p w)
  then show ?case
    by (intro inv_event)
      (auto simp: handleInputFocus_def setState_def Let_def split: option.splits prod.splits)
next
  case (click p w focused)
  then show ?case
    by (intro inv_event) (auto simp: handleInputClick_def setState_def)
next
  case (timer p w)
  then show ?case
    by (intro inv_step [of p w]) (auto simp: scrollTimer_fires_def split: option.splits)
next
  case (menuPointer p w ignore)
  then show ?case
    by (intro inv_step [of p w]) (simp_all add: setIgnoreBlur_def)
next
  case (itemMouseEnter p w i)
  show ?case
  proof (cases "isItemSelectable p (filteredView p (heap w) ! i)")
    case True
    then have "fire (item_onMouseEnter p (filteredView p (heap w) ! i) i) w
                 = react_event (highlightItemFromMouse (int i)) w"
      by (simp add: fire_def item_onMouseEnter_def)
    moreover have "items p < length (heap (react_event (highlightItemFromMouse (int i)) w))
       \<and> highlight_valid p (react_event (highlightItemFromMouse (int i)) w)"
      using itemMouseEnter
      by (intro inv_step [of p w])
        (simp_all add: heap_react_event highlightedIndex_react_event highlightItemFromMouse_def
          setState_def extend_simps)
    ultimately show ?thesis by simp
  next
    case False
    then show ?thesis
      using itemMouseEnter by (simp add: fire_def item_onMouseEnter_def)
  qed
next
  case (itemClick p w i)
  show ?case
  proof (cases "isItemSelectable p (filteredView p (heap w) ! i)")
    case True
    define item where "item = filteredView p (heap w) ! i"
    have "fire (item_onClick p item) w = react_event (selectItemFromMouse p item) w"
      using True by (simp add: fire_def item_onClick_def item_def)
    moreover have "items p < length (heap (react_event (selectItemFromMouse p item) w))
       \<and> highlight_valid p (react_event (selectItemFromMouse p item) w)"
      using itemClick
      by (intro inv_event)
        (simp_all add: selectItemFromMouse_def setState_def setIgnoreBlur_def Let_def)
    ultimately show ?thesis by (simp add: item_def)
  next
    case False
    then show ?thesis
      using itemClick by (simp add: fire_def item_onClick_def)
  qed
qed


lemma receiveProps_after_shrink:
  assumes "items p' < length h'"
    and "highlightedIndex w = Some k" and "0 \<le> k"
    and "int (length (filteredView p' h')) \<le> k"
  shows "highlightedIndex (react_event (componentWillReceiveProps toLowerCase p p') (w\<lparr>heap := h'\<rparr>))
           \<noteq> Some k
         \<and> (\<not> (autoHighlight p' \<and> value p \<noteq> value p') \<longrightarrow>
              highlightedIndex (react_event (componentWillReceiveProps toLowerCase p p') (w\<lparr>heap := h'\<rparr>))
                = None)"
proof -
  define v0 :: handling where "v0 = world.extend (w\<lparr>heap := h'\<rparr>) \<lparr>callbacks = []\<rparr>"
  define v1 where "v1 = setState (ensureHighlightedIndex p') [] v0"
  have v0: "heap v0 = h'" "highlightedIndex v0 = Some k"
    using assms(2) by (simp_all add: v0_def world.extend_def)
  have hi1: "highlightedIndex v1 = None"
    using assms(4) by (simp add: v1_def setState_simps highlightedIndex_ensureHighlightedIndex v0)
  have h1: "heap v1 = fst (getFilteredItems p' h')"
    by (simp add: v1_def setState_simps heap_ensureHighlightedIndex v0)
  have l1: "length (filteredView p' (heap v1)) = length (filteredView p' h')"
    using assms(1) by (simp add: h1 length_view_after)
  have run: "componentWillReceiveProps toLowerCase p p' v0 =
      (if autoHighlight p' \<and> value p \<noteq> value p'
       then setState (maybeAutoCompleteText toLowerCase p') [] v1 else v1)"
    by (simp add: componentWillReceiveProps_def v1_def v0 Let_def)
  have "highlightedIndex (setState (maybeAutoCompleteText toLowerCase p') [] v1) \<noteq> Some k"
    using highlightedIndex_maybeAutoCompleteText [of toLowerCase p' v1] assms(4)
    by (auto simp: setState_simps l1)
  then show ?thesis
    unfolding highlightedIndex_react_event v0_def[symmetric] run
    by (simp add: hi1)
qed

text \<open>
  C1, as amended. In every state the component reaches, the highlighted index, if present,
  is an index into the filtered view of the current props. When new props (and a new store)
  arrive whose filtered view is no longer than the highlighted index \<open>k\<close>,
  \<^verbatim>\<open>ensureHighlightedIndex\<close> clears the highlight; after the whole update
  (\<^verbatim>\<open>componentWillReceiveProps\<close>) the highlight is not \<open>k\<close> any more and is valid for the new
  props, and it is absent unless \<open>autoHighlight\<close> is on and the text value has changed: then
  the auto-highlight recomputation runs after \<^verbatim>\<open>ensureHighlightedIndex\<close> and may set a new
  highlight.
\<close>

theorem highlightedIndex_indexes_view:
  assumes "reachable toLowerCase p w"
  shows "highlight_valid p w
         \<and> (\<forall>p' h' k. items p' < length h' \<and> highlightedIndex w = Some k
                 \<and> int (length (filteredView p' h')) \<le> k \<longrightarrow>
               highlightedIndex
                 (react_event (setState (ensureHighlightedIndex p') []) (w\<lparr>heap := h'\<rparr>)) = None
               \<and> (let w' = react_event (componentWillReceiveProps toLowerCase p p') (w\<lparr>heap := h'\<rparr>)
                  in highlight_valid p' w' \<and> highlightedIndex w' \<noteq> Some k
                     \<and> (\<not> (autoHighlight p' \<and> value p \<noteq> value p') \<longrightarrow>
                          highlightedIndex w' = None)))"
proof -
  note inv = reachable_invariant [OF assms]
  then have valid: "highlight_valid p w" by simp
  have "highlightedIndex
          (react_event (setState (ensureHighlightedIndex p') []) (w\<lparr>heap := h'\<rparr>)) = None
        \<and> (let w' = react_event (componentWillReceiveProps toLowerCase p p') (w\<lparr>heap := h'\<rparr>)
           in highlight_valid p' w' \<and> highlightedIndex w' \<noteq> Some k
              \<and> (\<not> (autoHighlight p' \<and> value p \<noteq> value p') \<longrightarrow>
                   highlightedIndex w' = None))"
    if a: "items p' < length h'" and k: "highlightedIndex w = Some k"
      and s: "int (length (filteredView p' h')) \<le> k" for p' h' k
  proof -
    have k0: "0 \<le> k"
      using valid k by (simp add: highlight_valid_def)
    have e: "highlightedIndex
          (react_event (setState (ensureHighlightedIndex p') []) (w\<lparr>heap := h'\<rparr>)) = None"
      using k s
      by (simp add: highlightedIndex_react_event setState_simps
          highlightedIndex_ensureHighlightedIndex extend_simps)
    show ?thesis
      using e receiveProps_after_shrink [OF a k k0 s, where p = p and toLowerCase = toLowerCase]
        inv_receiveProps [OF a highlight_valid_nonneg [OF valid],
          where p = p and toLowerCase = toLowerCase]
      by (simp add: Let_def)
  qed
  with valid show ?thesis by blast
qed


lemma last_highlighted_world_eq:
  "last_highlighted_world =
     \<lparr>heap = fruit_heap, isOpen = True, highlightedIndex = Some 2, ignoreBlur = False,
      ignoreFocus = False, scrollOffset = None, scrollTimer = None,
      effects = [PreventDefault, OnMenuVisibilityChange True]\<rparr>"
  by (simp add: last_highlighted_world_def handleKeyDown_def keyDownHandlers_ArrowUp_def
      arrowUp_event_def event_defs initial_world_def typed_a_props_def defaultProps_def
      getFilteredItems_def fruit_heap_def deref_def arrowUp_loop.simps js_rem_def js_nth_def)

lemma reachable_last_highlighted:
  "reachable toLowerCase_ascii typed_a_props last_highlighted_world"
proof -
  have "reachable toLowerCase_ascii typed_a_props (initial_world fruit_heap)"
    by (rule reachable.mount) (simp add: typed_a_props_def defaultProps_def fruit_heap_def)
  then show ?thesis
    unfolding last_highlighted_world_def by (rule reachable.keyDown)
qed

lemma shrunk_views:
  "filteredView typed_ap_props shrunk_heap = [JStr ''apple'', JStr ''apricot'']"
  "filteredView no_autoHighlight_props shrunk_heap = [JStr ''apple'', JStr ''apricot'']"
  by (simp_all add: filteredView_def getFilteredItems_def typed_ap_props_def
      no_autoHighlight_props_def defaultProps_def shrunk_heap_def deref_def)

text \<open>
  The claim as written fails there: the highlight is on the third of three items, the
  text changes from \<open>a\<close> to \<open>ap\<close> and the items shrink to two, and after the update the
  highlight is not absent: auto-highlight has put it on the first item.
\<close>

theorem highlight_survives_shrink_by_autoHighlight:
  "reachable toLowerCase_ascii typed_a_props last_highlighted_world
   \<and> highlightedIndex last_highlighted_world = Some 2
   \<and> items typed_ap_props < length shrunk_heap
   \<and> length (filteredView typed_ap_props shrunk_heap) = 2
   \<and> highlightedIndex
        (react_event (componentWillReceiveProps toLowerCase_ascii typed_a_props typed_ap_props)
           (last_highlighted_world\<lparr>heap := shrunk_heap\<rparr>)) = Some 0"
proof -
  have "highlightedIndex
        (react_event (componentWillReceiveProps toLowerCase_ascii typed_a_props typed_ap_props)
           (last_highlighted_world\<lparr>heap := shrunk_heap\<rparr>)) = Some 0"
    by (simp add: last_highlighted_world_eq componentWillReceiveProps_def event_defs
        ensureHighlightedIndex_def maybeAutoCompleteText_def typed_a_props_def
        typed_ap_props_def defaultProps_def getFilteredItems_def shrunk_heap_def deref_def
        autoComplete_loop.simps js_nth_def itemString_def toLowerCase_ascii_def
        toLowerCase_ascii_char_def indexOf_def Let_def)
  moreover have "highlightedIndex last_highlighted_world = Some 2"
    by (simp add: last_highlighted_world_eq)
  moreover have "items typed_ap_props < length shrunk_heap"
    by (simp add: typed_ap_props_def defaultProps_def shrunk_heap_def)
  moreover have "length (filteredView typed_ap_props shrunk_heap) = 2"
    by (simp add: shrunk_views)
  ultimately show ?thesis
    using reachable_last_highlighted by simp
qed

theorem highlightedIndex_indexes_view_witness:
  "reachable toLowerCase_ascii typed_a_props last_highlighted_world
   \<and> highlightedIndex last_highlighted_world = Some 2
   \<and> highlight_valid typed_a_props last_highlighted_world
   \<and> length (filteredView no_autoHighlight_props shrunk_heap) = 2
   \<and> highlightedIndex
        (react_event (componentWillReceiveProps toLowerCase_ascii typed_a_props no_autoHighlight_props)
           (last_highlighted_world\<lparr>heap := shrunk_heap\<rparr>)) = None"
proof -
  note r = reachable_last_highlighted
  have a: "items no_autoHighlight_props < length shrunk_heap"
    by (simp add: no_autoHighlight_props_def defaultProps_def shrunk_heap_def)
  have k: "highlightedIndex last_highlighted_world = Some 2"
    by (simp add: last_highlighted_world_eq)
  have s: "int (length (filteredView no_autoHighlight_props shrunk_heap)) \<le> 2"
    by (simp add: shrunk_views)
  have n: "\<not> (autoHighlight no_autoHighlight_props
              \<and> value typed_a_props \<noteq> value no_autoHighlight_props)"
    by (simp add: no_autoHighlight_props_def)
  from highlightedIndex_indexes_view [OF r]
  have "highlight_valid typed_a_props last_highlighted_world"
    and "highlightedIndex
        (react_event (componentWillReceiveProps toLowerCase_ascii typed_a_props no_autoHighlight_props)
           (last_highlighted_world\<lparr>heap := shrunk_heap\<rparr>)) = None"
    using a k s n by (auto simp: Let_def)
  with r k show ?thesis by (simp add: shrunk_views)
qed

end
